theory Spec2Isabelle
  imports Complex_Main "HOL-Library.Log_Nat"
begin

section \<open>Data model (src/types.ts)\<close>

datatype MessageRole = USER | MODEL

text \<open>
  \<open>ChatMessage\<close> of src/types.ts. The \<open>id\<close> field is the decimal rendering of a
  \<open>Date.now()\<close> reading; it is kept here as that number (field \<open>id_msg\<close>, since \<open>id\<close>
  is the identity function of HOL).
\<close>

record ChatMessage =
  id_msg :: nat
  role :: MessageRole
  "text" :: string
  isFinal :: bool
  timestamp :: nat

text \<open>The string union \<open>ConnectionState\<close>; the literal \<open>'error'\<close> is \<open>Error\<close>.\<close>

datatype ConnectionState = Disconnected | Connecting | Connected | Error

section \<open>Platform values used by src/App.tsx\<close>

text \<open>
  A JavaScript number is an IEEE 754 double. A finite double is kept here as the real
  number it denotes, and an arithmetic operation gives the exact result rounded to the
  nearest double, ties to the even significand. \<open>binade x\<close> is the exponent \<open>e\<close> with
  \<open>2^e \<le> x < 2^(e+1)\<close> for a positive \<open>x\<close>, and \<open>ulp x\<close> the spacing of the doubles
  there: \<open>2^(e-52)\<close>, and \<open>2^(-1074)\<close> in the subnormal range. Infinities and NaN
  are not modelled: a result of magnitude \<open>2^1024\<close> or more is outside the model.
\<close>

definition binade :: "real \<Rightarrow> int" where
  "binade x =
     (if 1 \<le> x then int (floorlog 2 (nat \<lfloor>x\<rfloor>)) - 1
      else - int (floorlog 2 (nat \<lceil>1 / x\<rceil> - 1)))"

definition ulp :: "real \<Rightarrow> real" where
  "ulp x = 2 powi (max (binade x - 52) (- 1074))"

definition roundTiesToEven :: "real \<Rightarrow> int" where
  "roundTiesToEven y =
     (if y - of_int \<lfloor>y\<rfloor> < 1 / 2 then \<lfloor>y\<rfloor>
      else if 1 / 2 < y - of_int \<lfloor>y\<rfloor> then \<lfloor>y\<rfloor> + 1
      else if even \<lfloor>y\<rfloor> then \<lfloor>y\<rfloor> else \<lfloor>y\<rfloor> + 1)"

definition double_round :: "real \<Rightarrow> real" where
  "double_round x =
     (if x = 0 then 0
      else if 0 < x then ulp x * of_int (roundTiesToEven (x / ulp x))
      else - (ulp (- x) * of_int (roundTiesToEven (- x / ulp (- x)))))"

text \<open>The \<open>+\<close> of two numbers, as in \<open>nextStartTimeRef.current += audioBuffer.duration\<close>.\<close>

definition plus64 :: "real \<Rightarrow> real \<Rightarrow> real" where
  "plus64 a b = double_round (a + b)"

text \<open>
  A Web Audio \<open>AudioBuffer\<close>: its \<open>duration\<close> attribute is the double quotient of the
  number of sample frames and the sample rate.
\<close>

record AudioBuffer =
  frames :: nat
  sampleRate :: nat

definition duration :: "AudioBuffer \<Rightarrow> real" where
  "duration b = double_round (real (frames b) / real (sampleRate b))"

text \<open>
  An \<open>AudioBufferSourceNode\<close> that has been started: \<open>sid\<close> is the identity of the
  object (the members of the \<open>Set\<close> in \<open>audioSourcesRef\<close> are compared by identity),
  \<open>startAt\<close> the argument of \<open>source.start\<close>.
\<close>

record Source =
  sid :: nat
  buffer :: AudioBuffer
  startAt :: real

text \<open>
  The constants of one render of the component that the callbacks created inside
  \<open>connect\<close> close over. \<open>isMicMuted\<close>, \<open>isSpeakerMuted\<close>, \<open>sourceLang\<close> and
  \<open>targetLang\<close> are \<open>const\<close> bindings of \<open>useState\<close> results: a callback created during
  one call of \<open>connect\<close> keeps reading the values of the render in which that call was
  made, whatever \<open>setIsMicMuted\<close> and \<open>setIsSpeakerMuted\<close> do later.
\<close>

record Scope =
  r_isMicMuted :: bool
  r_isSpeakerMuted :: bool
  r_sourceLang :: string
  r_targetLang :: string

text \<open>
  What the program does to the outside world, in the order it does it.
  \<open>SourceStart i t d\<close> is \<open>source.start(t)\<close> on node \<open>i\<close>, whose buffer lasts \<open>d\<close>
  seconds; \<open>LiveConnect\<close> carries the two languages of the system instruction.
\<close>

datatype Effect =
    GetUserMedia
  | LiveConnect string string
  | ResumeInput
  | SendRealtimeInput "string \<times> string"
  | ConsoleError string
  | SourceStart nat real real
  | SourceStop nat
  | MicDisconnect
  | ProcessorDisconnect
  | InputClose
  | Reload

text \<open>
  The inbound \<open>LiveServerMessage\<close>, reduced to the paths that \<open>onmessage\<close> reads.
  \<open>None\<close> is an absent (\<open>undefined\<close>) value. \<open>inputTranscription\<close> and
  \<open>outputTranscription\<close> are \<open>Some None\<close> when the object is there without a \<open>text\<close>.
  \<open>audioData\<close> is the value of
  \<open>serverContent?.modelTurn?.parts?.[0]?.inlineData?.data\<close>. A message without
  \<open>serverContent\<close> has every field \<open>None\<close>.
\<close>

record LiveServerMessage =
  inputTranscription :: "string option option"
  outputTranscription :: "string option option"
  turnComplete :: "bool option"
  audioData :: "string option"
  interrupted :: "bool option"

text \<open>
  What the program reads from its environment. \<open>Date_now\<close> and \<open>currentTime\<close> give the
  k-th reading of \<open>Date.now()\<close> and of \<open>outputContextRef.current.currentTime\<close> of an
  execution. \<open>decodeAudioData\<close> stands for \<open>base64ToUint8Array\<close> followed by
  \<open>decodeAudioData\<close>, and \<open>createAudioBlob\<close> for the encoder of a capture frame; both
  are imported from \<open>./utils/audioUtils\<close>. \<open>decodeAudioData\<close> returns \<open>None\<close> where
  the call throws.
\<close>

record Env =
  API_KEY :: "string option"
  Date_now :: "nat \<Rightarrow> nat"
  currentTime :: "nat \<Rightarrow> real"
  decodeAudioData :: "string \<Rightarrow> AudioBuffer option"
  createAudioBlob :: "real list \<Rightarrow> string \<times> string"

section \<open>The component's state\<close>

text \<open>
  The \<open>useState\<close> cells and the \<open>useRef\<close> cells of \<open>App\<close>, followed by what the
  model needs to know about the world: the callbacks registered with the remote session
  (\<open>session\<close>) and with the script processor (\<open>scriptProcessor\<close>), each with the scope
  it closes over, the \<open>connect\<close> call that waits for the microphone (\<open>pendingConnect\<close>),
  the number of readings taken so far from each clock, the number of source nodes
  created, and the effects performed.
\<close>

record App =
  connectionState :: ConnectionState
  messages :: "ChatMessage list"
  sourceLang :: string
  targetLang :: string
  isMicMuted :: bool
  isSpeakerMuted :: bool
  error :: "string option"
  inputContext :: bool
  outputContext :: bool
  scriptProcessor :: "Scope option"
  mediaStreamSource :: bool
  nextStartTime :: real
  audioSources :: "Source list"
  currentInputTrans :: string
  currentOutputTrans :: string
  session :: "Scope option"
  pendingConnect :: "Scope option"
  dateReads :: nat
  timeReads :: nat
  sourcesCreated :: nat
  trace :: "Effect list"

definition initialApp :: App where
  "initialApp =
     \<lparr>connectionState = Disconnected, messages = [], sourceLang = ''vi'',
      targetLang = ''en'', isMicMuted = False, isSpeakerMuted = False, error = None,
      inputContext = False, outputContext = False, scriptProcessor = None,
      mediaStreamSource = False, nextStartTime = 0, audioSources = [],
      currentInputTrans = [], currentOutputTrans = [], session = None,
      pendingConnect = None, dateReads = 0, timeReads = 0, sourcesCreated = 0,
      trace = []\<rparr>"

section \<open>Strings\<close>

text \<open>
  A \<open>char\<close> stands for one code unit below 256. \<open>String.prototype.trim\<close> removes
  white space and line terminators from both ends; below 256 these are TAB, LF, VT, FF,
  CR, SPACE and NBSP.
\<close>

definition isWhiteSpace :: "char \<Rightarrow> bool" where
  "isWhiteSpace c \<longleftrightarrow>
     c \<in> set [CHR 0x09, CHR 0x0A, CHR 0x0B, CHR 0x0C, CHR 0x0D, CHR 0x20, CHR 0xA0]"

definition trim :: "string \<Rightarrow> string" where
  "trim t = rev (dropWhile isWhiteSpace (rev (dropWhile isWhiteSpace t)))"

section \<open>Transcript (src/App.tsx, \<open>updateLastMessage\<close> and the transcript branches of \<open>onmessage\<close>)\<close>

text \<open>
  \<open>updateLastMessage\<close>, lines 263-280. Only the last element of \<open>prev\<close> is looked at.
  \<open>prev[prev.length - 1]\<close> is \<open>undefined\<close> on the empty log, which the first test
  rejects. A new entry reads \<open>Date.now()\<close> twice.
\<close>

definition updateLastMessage :: "Env \<Rightarrow> MessageRole \<Rightarrow> string \<Rightarrow> bool \<Rightarrow> App \<Rightarrow> App" where
  "updateLastMessage env r t fin s =
     (let prev = messages s in
      if prev \<noteq> [] \<and> role (last prev) = r \<and> \<not> isFinal (last prev)
      then s\<lparr>messages := butlast prev @ [(last prev)\<lparr>text := t, isFinal := fin\<rparr>]\<rparr>
      else if length (trim t) > 0
      then s\<lparr>messages := prev @
                [\<lparr>id_msg = Date_now env (dateReads s), role = r, text = t,
                  isFinal = fin, timestamp = Date_now env (dateReads s + 1)\<rparr>],
             dateReads := dateReads s + 2\<rparr>
      else s)"

text \<open>The accumulation buffer of a role: \<open>currentInputTransRef\<close> or \<open>currentOutputTransRef\<close>.\<close>

fun currentTrans :: "MessageRole \<Rightarrow> App \<Rightarrow> string" where
  "currentTrans USER s = currentInputTrans s"
| "currentTrans MODEL s = currentOutputTrans s"

fun setCurrentTrans :: "MessageRole \<Rightarrow> string \<Rightarrow> App \<Rightarrow> App" where
  "setCurrentTrans USER t s = s\<lparr>currentInputTrans := t\<rparr>"
| "setCurrentTrans MODEL t s = s\<lparr>currentOutputTrans := t\<rparr>"

text \<open>
  The body of the two transcription branches, lines 166-169 and 174-177: a truthy
  fragment is appended to the role's buffer and the whole buffer is handed to
  \<open>updateLastMessage\<close>.
\<close>

definition appendDelta :: "Env \<Rightarrow> MessageRole \<Rightarrow> string \<Rightarrow> App \<Rightarrow> App" where
  "appendDelta env r t s =
     (if t \<noteq> []
      then let s1 = setCurrentTrans r (currentTrans r s @ t) s
           in updateLastMessage env r (currentTrans r s1) False s1
      else s)"

text \<open>The turn-complete branch, lines 182-189: USER first, then MODEL.\<close>

definition sealTurn :: "Env \<Rightarrow> App \<Rightarrow> App" where
  "sealTurn env s =
     (let s1 = (if currentInputTrans s \<noteq> []
                then (updateLastMessage env USER (currentInputTrans s) True s)
                       \<lparr>currentInputTrans := []\<rparr>
                else s)
      in if currentOutputTrans s1 \<noteq> []
         then (updateLastMessage env MODEL (currentOutputTrans s1) True s1)
                \<lparr>currentOutputTrans := []\<rparr>
         else s1)"

text \<open>The transcript part of the interruption branch, lines 228-231.\<close>

definition sealOnInterrupt :: "Env \<Rightarrow> App \<Rightarrow> App" where
  "sealOnInterrupt env s =
     (if currentOutputTrans s \<noteq> []
      then (updateLastMessage env MODEL (currentOutputTrans s @ '' [Interrupted]'') True s)
             \<lparr>currentOutputTrans := []\<rparr>
      else s)"

section \<open>Playback (src/App.tsx, the audio and interruption branches of \<open>onmessage\<close>)\<close>

text \<open>
  Lines 200-215, after the chunk has been decoded: the clock \<open>nextStartTimeRef\<close> is
  raised to the device time, a source node is created and started at the clock, the clock
  advances by the buffer's duration (an addition of two doubles), and the node joins
  \<open>audioSourcesRef\<close>.
\<close>

definition enqueue :: "Env \<Rightarrow> AudioBuffer \<Rightarrow> App \<Rightarrow> App" where
  "enqueue env audioBuffer s =
     (let t = max (nextStartTime s) (currentTime env (timeReads s));
          source = \<lparr>sid = sourcesCreated s, buffer = audioBuffer, startAt = t\<rparr>
      in s\<lparr>nextStartTime := plus64 t (duration audioBuffer),
            audioSources := audioSources s @ [source],
            sourcesCreated := sourcesCreated s + 1,
            timeReads := timeReads s + 1,
            trace := trace s @ [SourceStart (sid source) t (duration audioBuffer)]\<rparr>)"

text \<open>The listener of a source's \<open>ended\<close> event, lines 209-211.\<close>

definition ended :: "nat \<Rightarrow> App \<Rightarrow> App" where
  "ended i s = s\<lparr>audioSources := filter (\<lambda>x. sid x \<noteq> i) (audioSources s)\<rparr>"

text \<open>
  Lines 194-220. The test is on the captured \<open>isSpeakerMuted\<close>. An exception of the
  decoder is caught and logged; the clock is read only after decoding. The statements
  after the \<open>await\<close> are taken to run before the next inbound message is handled.
\<close>

definition handleAudio :: "Env \<Rightarrow> Scope \<Rightarrow> LiveServerMessage \<Rightarrow> App \<Rightarrow> App" where
  "handleAudio env sc msg s =
     (case audioData msg of
        None \<Rightarrow> s
      | Some d \<Rightarrow>
          if d \<noteq> [] \<and> outputContext s \<and> \<not> r_isSpeakerMuted sc
          then (case decodeAudioData env d of
                  None \<Rightarrow> s\<lparr>trace := trace s @ [ConsoleError ''Error decoding audio'']\<rparr>
                | Some audioBuffer \<Rightarrow> enqueue env audioBuffer s)
          else s)"

text \<open>
  Lines 224-226: every live source is stopped, the set is cleared, and the clock becomes
  \<open>outputContextRef.current?.currentTime || 0\<close>.
\<close>

definition stopAll :: "Env \<Rightarrow> App \<Rightarrow> App" where
  "stopAll env s =
     (if outputContext s
      then s\<lparr>trace := trace s @ map (\<lambda>x. SourceStop (sid x)) (audioSources s),
             audioSources := [],
             nextStartTime := currentTime env (timeReads s),
             timeReads := timeReads s + 1\<rparr>
      else s\<lparr>trace := trace s @ map (\<lambda>x. SourceStop (sid x)) (audioSources s),
             audioSources := [],
             nextStartTime := 0\<rparr>)"

section \<open>The inbound message handler (src/App.tsx, \<open>onmessage\<close>, lines 160-233)\<close>

definition handleInputTranscription :: "Env \<Rightarrow> LiveServerMessage \<Rightarrow> App \<Rightarrow> App" where
  "handleInputTranscription env msg s =
     (case inputTranscription msg of
        Some (Some t) \<Rightarrow> appendDelta env USER t s
      | _ \<Rightarrow> s)"

definition handleOutputTranscription :: "Env \<Rightarrow> LiveServerMessage \<Rightarrow> App \<Rightarrow> App" where
  "handleOutputTranscription env msg s =
     (case outputTranscription msg of
        Some (Some t) \<Rightarrow> appendDelta env MODEL t s
      | _ \<Rightarrow> s)"

definition handleTurnComplete :: "Env \<Rightarrow> LiveServerMessage \<Rightarrow> App \<Rightarrow> App" where
  "handleTurnComplete env msg s =
     (if turnComplete msg = Some True then sealTurn env s else s)"

definition handleInterrupted :: "Env \<Rightarrow> LiveServerMessage \<Rightarrow> App \<Rightarrow> App" where
  "handleInterrupted env msg s =
     (if interrupted msg = Some True then sealOnInterrupt env (stopAll env s) else s)"

definition onmessage :: "Env \<Rightarrow> Scope \<Rightarrow> LiveServerMessage \<Rightarrow> App \<Rightarrow> App" where
  "onmessage env sc msg s =
     handleInterrupted env msg
       (handleAudio env sc msg
          (handleTurnComplete env msg
             (handleOutputTranscription env msg
                (handleInputTranscription env msg s))))"

text \<open>The messages of a session are handled one after the other, in arrival order.\<close>

fun onmessages :: "Env \<Rightarrow> Scope \<Rightarrow> LiveServerMessage list \<Rightarrow> App \<Rightarrow> App" where
  "onmessages env sc [] s = s"
| "onmessages env sc (msg # msgs) s = onmessages env sc msgs (onmessage env sc msg s)"

section \<open>Capture (src/App.tsx, \<open>onaudioprocess\<close>, lines 145-154)\<close>

text \<open>
  The test reads the \<open>isMicMuted\<close> of the scope the callback closes over. The send
  goes through \<open>sessionPromise.then\<close>; frames arrive only once the session is open.
\<close>

definition onaudioprocess :: "Env \<Rightarrow> Scope \<Rightarrow> real list \<Rightarrow> App \<Rightarrow> App" where
  "onaudioprocess env sc inputData s =
     (if r_isMicMuted sc then s
      else s\<lparr>trace := trace s @ [SendRealtimeInput (createAudioBlob env inputData)]\<rparr>)"

section \<open>Session controller (src/App.tsx, \<open>connect\<close>, \<open>stopAudio\<close>, \<open>disconnect\<close>)\<close>

text \<open>\<open>setupAudioContexts\<close>, lines 53-60: each context is created if it is not there.\<close>

definition setupAudioContexts :: "App \<Rightarrow> App" where
  "setupAudioContexts s = s\<lparr>inputContext := True, outputContext := True\<rparr>"

text \<open>
  \<open>stopAudio\<close>, lines 62-90. \<open>inputContextRef.current?.state !== 'closed'\<close> also holds
  when the reference is \<open>null\<close>; the reference is \<open>null\<close> afterwards in both cases.
\<close>

definition stopAudio :: "Env \<Rightarrow> App \<Rightarrow> App" where
  "stopAudio env s =
     (let s1 = s\<lparr>trace := trace s @ map (\<lambda>x. SourceStop (sid x)) (audioSources s),
                  audioSources := [],
                  nextStartTime := 0\<rparr>;
          s2 = (if mediaStreamSource s1
                then s1\<lparr>trace := trace s1 @ [MicDisconnect], mediaStreamSource := False\<rparr>
                else s1);
          s3 = (if scriptProcessor s2 \<noteq> None
                then s2\<lparr>trace := trace s2 @ [ProcessorDisconnect], scriptProcessor := None\<rparr>
                else s2);
          s4 = (if inputContext s3
                then s3\<lparr>trace := trace s3 @ [InputClose], inputContext := False\<rparr>
                else s3)
      in if outputContext s4
         then s4\<lparr>nextStartTime := currentTime env (timeReads s4),
                 timeReads := timeReads s4 + 1\<rparr>
         else s4)"

text \<open>The scope of the current render.\<close>

definition scopeOf :: "App \<Rightarrow> Scope" where
  "scopeOf s =
     \<lparr>r_isMicMuted = isMicMuted s, r_isSpeakerMuted = isSpeakerMuted s,
      r_sourceLang = sourceLang s, r_targetLang = targetLang s\<rparr>"

text \<open>
  \<open>connect\<close>, lines 99-113, up to the call of \<open>getUserMedia\<close>, where the function
  waits. \<open>!process.env.API_KEY\<close> holds for an undefined and for an empty key. There is
  no test of \<open>connectionState\<close>.
\<close>

definition connect :: "Env \<Rightarrow> App \<Rightarrow> App" where
  "connect env s =
     (if API_KEY env = None \<or> API_KEY env = Some []
      then s\<lparr>error := Some ''Missing API Key in environment variables.''\<rparr>
      else let s1 = setupAudioContexts (s\<lparr>connectionState := Connecting, error := None\<rparr>)
           in s1\<lparr>pendingConnect := Some (scopeOf s),
                  trace := trace s1 @ [GetUserMedia]\<rparr>)"

text \<open>
  Lines 115-247, once the stream is there: the remote session is opened with the
  languages of the scope and the callbacks are registered.
\<close>

definition connectStream :: "App \<Rightarrow> App" where
  "connectStream s =
     (case pendingConnect s of
        None \<Rightarrow> s
      | Some sc \<Rightarrow>
          s\<lparr>session := Some sc, pendingConnect := None,
            trace := trace s @ [LiveConnect (r_sourceLang sc) (r_targetLang sc)]\<rparr>)"

text \<open>The \<open>catch\<close> block, lines 249-254; \<open>m\<close> is \<open>err.message\<close>.\<close>

definition connectCatch :: "Env \<Rightarrow> string option \<Rightarrow> App \<Rightarrow> App" where
  "connectCatch env m s =
     stopAudio env
       (s\<lparr>trace := trace s @ [ConsoleError (case m of None \<Rightarrow> [] | Some x \<Rightarrow> x)],
          error := Some (case m of None \<Rightarrow> ''Failed to start session.''
                         | Some x \<Rightarrow> if x = [] then ''Failed to start session.'' else x),
          connectionState := Disconnected,
          pendingConnect := None\<rparr>)"

text \<open>\<open>onopen\<close>, lines 132-159.\<close>

definition onopen :: "Scope \<Rightarrow> App \<Rightarrow> App" where
  "onopen sc s =
     (let s1 = s\<lparr>connectionState := Connected\<rparr>
      in if inputContext s1
         then s1\<lparr>trace := trace s1 @ [ResumeInput],
                 mediaStreamSource := True,
                 scriptProcessor := Some sc\<rparr>
         else s1)"

text \<open>\<open>onclose\<close> and \<open>onerror\<close>, lines 234-243.\<close>

definition onclose :: "Env \<Rightarrow> App \<Rightarrow> App" where
  "onclose env s = stopAudio env (s\<lparr>connectionState := Disconnected\<rparr>)"

definition onerror :: "Env \<Rightarrow> string \<Rightarrow> App \<Rightarrow> App" where
  "onerror env err s =
     stopAudio env
       (s\<lparr>trace := trace s @ [ConsoleError err],
          connectionState := Error,
          error := Some ''Connection error occurred.''\<rparr>)"

text \<open>
  \<open>disconnect\<close>, lines 257-261. \<open>window.location.reload()\<close> starts the page again:
  the component state is the initial one; what the world has seen stays.
\<close>

definition disconnect :: "Env \<Rightarrow> App \<Rightarrow> App" where
  "disconnect env s =
     (let s1 = stopAudio env s
      in initialApp\<lparr>dateReads := dateReads s1, timeReads := timeReads s1,
                     sourcesCreated := sourcesCreated s1,
                     trace := trace s1 @ [Reload]\<rparr>)"

text \<open>\<open>swapLanguages\<close>, lines 93-97.\<close>

definition swapLanguages :: "App \<Rightarrow> App" where
  "swapLanguages s =
     (if connectionState s \<noteq> Disconnected then s
      else s\<lparr>sourceLang := targetLang s, targetLang := sourceLang s\<rparr>)"

section \<open>The rendered controls and the event loop\<close>

datatype Control =
  StartButton | MicButton | EndButton | SpeechTextButton | TextOnlyButton | SwapButton

text \<open>
  Which control can be clicked in a state, from the JSX: the start button is rendered
  when the state is \<open>disconnected\<close> or \<open>error\<close> and the mute and end buttons otherwise
  (lines 372-399); the two output-mode buttons are rendered when \<open>connected\<close> (line 427);
  the swap button is disabled when \<open>connected\<close> (line 335).
\<close>

fun offered :: "App \<Rightarrow> Control \<Rightarrow> bool" where
  "offered s StartButton =
     (connectionState s = Disconnected \<or> connectionState s = Error)"
| "offered s MicButton =
     (\<not> (connectionState s = Disconnected \<or> connectionState s = Error))"
| "offered s EndButton =
     (\<not> (connectionState s = Disconnected \<or> connectionState s = Error))"
| "offered s SpeechTextButton = (connectionState s = Connected)"
| "offered s TextOnlyButton = (connectionState s = Connected)"
| "offered s SwapButton = (connectionState s \<noteq> Connected)"

fun onClick :: "Env \<Rightarrow> Control \<Rightarrow> App \<Rightarrow> App" where
  "onClick env StartButton s = connect env s"
| "onClick env MicButton s = s\<lparr>isMicMuted := \<not> isMicMuted s\<rparr>"
| "onClick env EndButton s = disconnect env s"
| "onClick env SpeechTextButton s = s\<lparr>isSpeakerMuted := False\<rparr>"
| "onClick env TextOnlyButton s = s\<lparr>isSpeakerMuted := True\<rparr>"
| "onClick env SwapButton s = swapLanguages s"

datatype Event =
    Click Control
  | UserMediaResolved
  | UserMediaRejected "string option"
  | SessionRejected "string option"
  | Open
  | Message LiveServerMessage
  | Close
  | Failure string
  | AudioProcess "real list"
  | Ended nat

text \<open>
  One event of the single-threaded event loop. A click reaches its handler only when
  the control is offered; a session callback runs with the scope it was created in; a
  capture frame reaches the callback of the connected script processor.
\<close>

fun step :: "Env \<Rightarrow> Event \<Rightarrow> App \<Rightarrow> App" where
  "step env (Click c) s = (if offered s c then onClick env c s else s)"
| "step env UserMediaResolved s = connectStream s"
| "step env (UserMediaRejected m) s =
     (if pendingConnect s = None then s else connectCatch env m s)"
| "step env (SessionRejected m) s =
     (if session s = None then s else connectCatch env m s)"
| "step env Open s = (case session s of None \<Rightarrow> s | Some sc \<Rightarrow> onopen sc s)"
| "step env (Message msg) s =
     (case session s of None \<Rightarrow> s | Some sc \<Rightarrow> onmessage env sc msg s)"
| "step env Close s = (case session s of None \<Rightarrow> s | Some sc \<Rightarrow> onclose env s)"
| "step env (Failure err) s =
     (case session s of None \<Rightarrow> s | Some sc \<Rightarrow> onerror env err s)"
| "step env (AudioProcess inputData) s =
     (case scriptProcessor s of None \<Rightarrow> s | Some sc \<Rightarrow> onaudioprocess env sc inputData s)"
| "step env (Ended i) s = ended i s"

fun run :: "Env \<Rightarrow> Event list \<Rightarrow> App \<Rightarrow> App" where
  "run env [] s = s"
| "run env (e # es) s = run env es (step env e s)"

section \<open>Notions used to state the properties\<close>

text \<open>The transcript operations, as the inbound branches perform them.\<close>

datatype TranscriptOp = AppendDelta MessageRole string | SealTurn | SealOnInterrupt

fun applyOp :: "Env \<Rightarrow> TranscriptOp \<Rightarrow> App \<Rightarrow> App" where
  "applyOp env (AppendDelta r t) s = appendDelta env r t s"
| "applyOp env SealTurn s = sealTurn env s"
| "applyOp env SealOnInterrupt s = sealOnInterrupt env s"

fun applyOps :: "Env \<Rightarrow> TranscriptOp list \<Rightarrow> App \<Rightarrow> App" where
  "applyOps env [] s = s"
| "applyOps env (op # ops) s = applyOps env ops (applyOp env op s)"

fun appendDeltas :: "Env \<Rightarrow> MessageRole \<Rightarrow> string list \<Rightarrow> App \<Rightarrow> App" where
  "appendDeltas env r [] s = s"
| "appendDeltas env r (f # fs) s = appendDeltas env r fs (appendDelta env r f s)"

text \<open>An open entry is a non-final one.\<close>

definition isOpen :: "MessageRole \<Rightarrow> ChatMessage \<Rightarrow> bool" where
  "isOpen r m \<longleftrightarrow> role m = r \<and> \<not> isFinal m"

definition openCount :: "MessageRole \<Rightarrow> ChatMessage list \<Rightarrow> nat" where
  "openCount r ms = length (filter (isOpen r) ms)"

definition lastOpen :: "MessageRole \<Rightarrow> ChatMessage list \<Rightarrow> bool" where
  "lastOpen r ms \<longleftrightarrow> ms \<noteq> [] \<and> isOpen r (last ms)"

text \<open>
  A sequence of operations in which a fragment for a role that has an open entry
  arrives only while that entry is the last one of the log.
\<close>

fun fragmentAtEnd :: "TranscriptOp \<Rightarrow> App \<Rightarrow> bool" where
  "fragmentAtEnd (AppendDelta r t) s =
     (openCount r (messages s) = 0 \<or> lastOpen r (messages s))"
| "fragmentAtEnd SealTurn s = True"
| "fragmentAtEnd SealOnInterrupt s = True"

fun fragmentsAtEnd :: "Env \<Rightarrow> TranscriptOp list \<Rightarrow> App \<Rightarrow> bool" where
  "fragmentsAtEnd env [] s = True"
| "fragmentsAtEnd env (op # ops) s =
     (fragmentAtEnd op s \<and> fragmentsAtEnd env ops (applyOp env op s))"

text \<open>The segments started in a trace, each with its start time and duration.\<close>

fun scheduled :: "Effect list \<Rightarrow> (real \<times> real) list" where
  "scheduled [] = []"
| "scheduled (SourceStart i t d # es) = (t, d) # scheduled es"
| "scheduled (e # es) = scheduled es"

text \<open>
  \<open>backToBack lo sch hi\<close>: the segments of \<open>sch\<close> follow one another between \<open>lo\<close>
  and \<open>hi\<close>, each starting no earlier than the clock value that the segment before left
  behind, the double sum of its start and its duration.
\<close>

fun backToBack :: "real \<Rightarrow> (real \<times> real) list \<Rightarrow> real \<Rightarrow> bool" where
  "backToBack lo [] hi = (lo \<le> hi)"
| "backToBack lo ((t, d) # sch) hi =
     (lo \<le> t \<and> 0 \<le> t \<and> 0 \<le> d \<and> t \<le> plus64 t d \<and> backToBack (plus64 t d) sch hi)"

text \<open>
  The finite doubles, and the values a clock takes: \<open>timeValue\<close> is the test that a
  number is a double that is not negative, \<open>clockValue\<close> the same in terms of
  \<open>isDouble\<close>.
\<close>

definition isDouble :: "real \<Rightarrow> bool" where
  "isDouble x \<longleftrightarrow> (\<exists>m u. - 1074 \<le> u \<and> \<bar>m\<bar> \<le> 2 ^ 53 \<and> x = of_int m * 2 powi u)"

definition timeValue :: "real \<Rightarrow> bool" where
  "timeValue x \<longleftrightarrow> 0 \<le> x \<and> double_round x = x"

definition clockValue :: "real \<Rightarrow> bool" where
  "clockValue x \<longleftrightarrow> 0 \<le> x \<and> isDouble x"

text \<open>
  The events that do not run the stop path (\<open>stopAudio\<close> or the interruption branch).
\<close>

fun keepsPlayback :: "Event \<Rightarrow> bool" where
  "keepsPlayback (Click c) = (c \<noteq> EndButton)"
| "keepsPlayback (UserMediaRejected m) = False"
| "keepsPlayback (SessionRejected m) = False"
| "keepsPlayback Close = False"
| "keepsPlayback (Failure err) = False"
| "keepsPlayback (Message msg) = (interrupted msg \<noteq> Some True)"
| "keepsPlayback e = True"

text \<open>An environment, a message without payload and a scope for the concrete runs below.\<close>

definition demoEnv :: "string option \<Rightarrow> Env" where
  "demoEnv k =
     \<lparr>API_KEY = k, Date_now = (\<lambda>n. 1000 + n), currentTime = (\<lambda>n. real n),
      decodeAudioData =
        (\<lambda>d. if d = ''!'' then None
              else Some \<lparr>frames = 12000 * length d, sampleRate = 24000\<rparr>),
      createAudioBlob = (\<lambda>f. (''data'', ''audio/pcm;rate=16000''))\<rparr>"

text \<open>
  An environment whose device clock stands at 0 and whose decoder gives a tenth of a
  second of audio for each character of the payload.
\<close>

definition tenthsEnv :: Env where
  "tenthsEnv =
     \<lparr>API_KEY = Some ''k'', Date_now = (\<lambda>n. 1000 + n), currentTime = (\<lambda>n. 0),
      decodeAudioData = (\<lambda>d. Some \<lparr>frames = 2400 * length d, sampleRate = 24000\<rparr>),
      createAudioBlob = (\<lambda>f. (''data'', ''audio/pcm;rate=16000''))\<rparr>"

definition emptyMessage :: LiveServerMessage where
  "emptyMessage =
     \<lparr>inputTranscription = None, outputTranscription = None, turnComplete = None,
      audioData = None, interrupted = None\<rparr>"

definition demoScope :: Scope where
  "demoScope = scopeOf initialApp"

text \<open>
  One of the two blocks of the turn-complete branch, for either role.
\<close>

definition sealRole :: "Env \<Rightarrow> MessageRole \<Rightarrow> App \<Rightarrow> App" where
  "sealRole env r s =
     (if currentTrans r s \<noteq> []
      then setCurrentTrans r [] (updateLastMessage env r (currentTrans r s) True s)
      else s)"

text \<open>A state with two live segments and a clock ahead of the device time.\<close>

definition playingApp :: App where
  "playingApp =
     initialApp\<lparr>outputContext := True, nextStartTime := 9, timeReads := 4,
       sourcesCreated := 2,
       audioSources :=
         [\<lparr>sid = 0, buffer = \<lparr>frames = 24000, sampleRate = 24000\<rparr>, startAt = 7\<rparr>,
          \<lparr>sid = 1, buffer = \<lparr>frames = 24000, sampleRate = 24000\<rparr>, startAt = 8\<rparr>]\<rparr>"

text \<open>
  \<open>grownFrom ms ms'\<close>: the log \<open>ms'\<close> keeps every entry of \<open>ms\<close> at its position,
  with its identity, role and time stamp, and keeps the final entries of \<open>ms\<close> as
  they are; what \<open>ms'\<close> has more comes after them.
\<close>

definition grownFrom :: "ChatMessage list \<Rightarrow> ChatMessage list \<Rightarrow> bool" where
  "grownFrom ms ms' \<longleftrightarrow>
     length ms \<le> length ms'
     \<and> (\<forall>i < length ms.
           id_msg (ms' ! i) = id_msg (ms ! i) \<and> role (ms' ! i) = role (ms ! i)
           \<and> timestamp (ms' ! i) = timestamp (ms ! i)
           \<and> (isFinal (ms ! i) \<longrightarrow> ms' ! i = ms ! i))"

text \<open>
  When the last entry of the log is open, the buffer of its role is not empty. This
  holds of every state the transcript operations reach from the initial one.
\<close>

definition openHasBuffer :: "App \<Rightarrow> bool" where
  "openHasBuffer s \<longleftrightarrow> (\<forall>r. lastOpen r (messages s) \<longrightarrow> currentTrans r s \<noteq> [])"

text \<open>
  Whenever a stop path can run (a session or a pending connect exists, or the state is
  \<open>connecting\<close> or \<open>connected\<close>), the output context is there.
\<close>

definition stopPathReady :: "App \<Rightarrow> bool" where
  "stopPathReady s \<longleftrightarrow>
     (session s \<noteq> None \<or> pendingConnect s \<noteq> None
      \<or> connectionState s = Connecting \<or> connectionState s = Connected
        \<longrightarrow> outputContext s)"

text \<open>
  The fragments that a sequence of operations hands to a role, the latest entry of a
  role in the log, and the state of a role whose latest entry holds its buffered text.
\<close>

fun isFragment :: "TranscriptOp \<Rightarrow> bool" where
  "isFragment (AppendDelta r t) = True"
| "isFragment SealTurn = False"
| "isFragment SealOnInterrupt = False"

fun fragmentsOf :: "MessageRole \<Rightarrow> TranscriptOp list \<Rightarrow> string list" where
  "fragmentsOf r [] = []"
| "fragmentsOf r (AppendDelta r' t # ops) =
     (if r' = r then t # fragmentsOf r ops else fragmentsOf r ops)"
| "fragmentsOf r (op # ops) = fragmentsOf r ops"

definition latestEntry :: "MessageRole \<Rightarrow> ChatMessage list \<Rightarrow> ChatMessage option" where
  "latestEntry r ms =
     (if filter (\<lambda>m. role m = r) ms = [] then None
      else Some (last (filter (\<lambda>m. role m = r) ms)))"

definition growing :: "MessageRole \<Rightarrow> App \<Rightarrow> bool" where
  "growing r s \<longleftrightarrow>
     (if 0 < length (trim (currentTrans r s))
      then \<exists>e. latestEntry r (messages s) = Some e \<and> \<not> isFinal e \<and> text e = currentTrans r s
      else \<not> lastOpen r (messages s))"

section \<open>Session start\<close>

text \<open>
  C10. When no API key is configured (the key is undefined or empty), \<open>connect\<close> only
  sets the error message "Missing API Key in environment variables.": the session
  state stays as it was, the microphone is not requested and no remote session is
  opened, for the trace of effects, the pending connect and the session are unchanged.
\<close>

theorem connect_without_key:
  assumes "API_KEY env = None \<or> API_KEY env = Some []"
  shows "connect env s = s\<lparr>error := Some ''Missing API Key in environment variables.''\<rparr>
       \<and> connectionState (connect env s) = connectionState s
       \<and> trace (connect env s) = trace s
       \<and> pendingConnect (connect env s) = pendingConnect s
       \<and> session (connect env s) = session s"
  using assms by (auto simp: connect_def)

theorem connect_without_key_witness:
  "API_KEY (demoEnv None) = None
   \<and> error (connect (demoEnv None) initialApp)
       = Some ''Missing API Key in environment variables.''
   \<and> connectionState (connect (demoEnv None) initialApp) = Disconnected
   \<and> trace (connect (demoEnv None) initialApp) = []"
  using connect_without_key [of "demoEnv None" initialApp]
  by (simp add: demoEnv_def initialApp_def)

text \<open>
  \<open>connect\<close> is reached only through the start button (\<open>onClick\<close>), and the start
  button is offered only in the states \<open>disconnected\<close> and \<open>error\<close>. The function
  itself has no test of the session state: with a key configured it sets the state to
  \<open>connecting\<close>, clears the error and requests the microphone.
\<close>

lemma connect_with_key:
  assumes "API_KEY env \<noteq> None" and "API_KEY env \<noteq> Some []"
  shows "connectionState (connect env s) = Connecting
       \<and> error (connect env s) = None
       \<and> pendingConnect (connect env s) = Some (scopeOf s)
       \<and> trace (connect env s) = trace s @ [GetUserMedia]"
  using assms by (auto simp: connect_def setupAudioContexts_def)

text \<open>
  C3. In every state in which the session is \<open>connecting\<close> or \<open>connected\<close>, a
  request to start is rejected: the start button is not offered, and the click changes
  nothing. No device is requested and no session is opened (the trace of effects, the
  pending connect and the session are as before), and the session state, the transcript
  log and the mute flags are unchanged.
\<close>

theorem start_rejected_while_active:
  assumes "connectionState s = Connecting \<or> connectionState s = Connected"
  shows "\<not> offered s StartButton
       \<and> step env (Click StartButton) s = s
       \<and> trace (step env (Click StartButton) s) = trace s
       \<and> pendingConnect (step env (Click StartButton) s) = pendingConnect s
       \<and> session (step env (Click StartButton) s) = session s
       \<and> connectionState (step env (Click StartButton) s) = connectionState s
       \<and> messages (step env (Click StartButton) s) = messages s
       \<and> isMicMuted (step env (Click StartButton) s) = isMicMuted s
       \<and> isSpeakerMuted (step env (Click StartButton) s) = isSpeakerMuted s"
  using assms by auto

theorem start_rejected_while_active_witness:
  "connectionState (run (demoEnv (Some ''k'')) [Click StartButton] initialApp) = Connecting
   \<and> trace (step (demoEnv (Some ''k'')) (Click StartButton)
         (run (demoEnv (Some ''k'')) [Click StartButton] initialApp))
       = [GetUserMedia]
   \<and> connectionState
         (run (demoEnv (Some ''k'')) [Click StartButton, UserMediaResolved, Open] initialApp)
       = Connected
   \<and> step (demoEnv (Some ''k'')) (Click StartButton)
         (run (demoEnv (Some ''k'')) [Click StartButton, UserMediaResolved, Open] initialApp)
       = run (demoEnv (Some ''k'')) [Click StartButton, UserMediaResolved, Open] initialApp
   \<and> trace (step (demoEnv (Some ''k'')) (Click StartButton)
         (run (demoEnv (Some ''k'')) [Click StartButton, UserMediaResolved, Open] initialApp))
       = [GetUserMedia, LiveConnect ''vi'' ''en'', ResumeInput]"
  using start_rejected_while_active
          [of "run (demoEnv (Some ''k'')) [Click StartButton] initialApp" "demoEnv (Some ''k'')"]
        start_rejected_while_active
          [of "run (demoEnv (Some ''k'')) [Click StartButton, UserMediaResolved, Open] initialApp"
              "demoEnv (Some ''k'')"]
  by (simp add: demoEnv_def initialApp_def connect_def setupAudioContexts_def scopeOf_def
        connectStream_def onopen_def)

section \<open>Capture and the microphone mute flag\<close>

lemmas session_defs =
  demoEnv_def initialApp_def connect_def setupAudioContexts_def scopeOf_def
  connectStream_def onopen_def onaudioprocess_def connectCatch_def stopAudio_def

text \<open>The capture callback never reads the flag of the state.\<close>

lemma capture_ignores_flag:
  "trace (onaudioprocess env sc inputData (s\<lparr>isMicMuted := b\<rparr>))
     = trace (onaudioprocess env sc inputData s)"
  by (simp add: onaudioprocess_def)


text \<open>
  C2 does not hold of the code. The capture callback tests the \<open>isMicMuted\<close> of the
  render in which \<open>connect\<close> was called, not the current flag. First run: the session
  is started with the flag off, the microphone button sets the flag, and the three
  frames that follow are all sent. Second run: the flag is set while the first start
  waits for the microphone, that start fails, the second start captures the set flag,
  the button clears the flag, and the frame that follows is still dropped.
\<close>

theorem mute_flag_not_consulted:
  "isMicMuted (run (demoEnv (Some ''k''))
       [Click StartButton, UserMediaResolved, Open, Click MicButton,
        AudioProcess [0], AudioProcess [0], AudioProcess [0]] initialApp) = True
   \<and> trace (run (demoEnv (Some ''k''))
       [Click StartButton, UserMediaResolved, Open, Click MicButton,
        AudioProcess [0], AudioProcess [0], AudioProcess [0]] initialApp)
     = [GetUserMedia, LiveConnect ''vi'' ''en'', ResumeInput,
        SendRealtimeInput (''data'', ''audio/pcm;rate=16000''),
        SendRealtimeInput (''data'', ''audio/pcm;rate=16000''),
        SendRealtimeInput (''data'', ''audio/pcm;rate=16000'')]
   \<and> isMicMuted (run (demoEnv (Some ''k''))
       [Click StartButton, Click MicButton, UserMediaRejected None, Click StartButton,
        UserMediaResolved, Open, Click MicButton, AudioProcess [0]] initialApp) = False
   \<and> trace (run (demoEnv (Some ''k''))
       [Click StartButton, Click MicButton, UserMediaRejected None, Click StartButton,
        UserMediaResolved, Open, Click MicButton, AudioProcess [0]] initialApp)
     = [GetUserMedia, ConsoleError [], InputClose, GetUserMedia, LiveConnect ''vi'' ''en'',
        ResumeInput]"
  by (simp add: session_defs)

section \<open>Frame lemmas for the transcript functions\<close>

lemma sealTurn_sealRole: "sealTurn env s = sealRole env MODEL (sealRole env USER s)"
  by (simp add: sealTurn_def sealRole_def Let_def)

lemma updateLastMessage_frame:
  "trace (updateLastMessage env r t fin s) = trace s"
  "nextStartTime (updateLastMessage env r t fin s) = nextStartTime s"
  "audioSources (updateLastMessage env r t fin s) = audioSources s"
  "outputContext (updateLastMessage env r t fin s) = outputContext s"
  "currentInputTrans (updateLastMessage env r t fin s) = currentInputTrans s"
  "currentOutputTrans (updateLastMessage env r t fin s) = currentOutputTrans s"
  "connectionState (updateLastMessage env r t fin s) = connectionState s"
  by (simp_all add: updateLastMessage_def Let_def)

lemma setCurrentTrans_frame:
  "trace (setCurrentTrans r t s) = trace s"
  "nextStartTime (setCurrentTrans r t s) = nextStartTime s"
  "audioSources (setCurrentTrans r t s) = audioSources s"
  "outputContext (setCurrentTrans r t s) = outputContext s"
  "connectionState (setCurrentTrans r t s) = connectionState s"
  "messages (setCurrentTrans r t s) = messages s"
  "dateReads (setCurrentTrans r t s) = dateReads s"
  by (cases r; simp)+

lemma appendDelta_frame:
  "trace (appendDelta env r t s) = trace s"
  "nextStartTime (appendDelta env r t s) = nextStartTime s"
  "audioSources (appendDelta env r t s) = audioSources s"
  "outputContext (appendDelta env r t s) = outputContext s"
  "connectionState (appendDelta env r t s) = connectionState s"
  by (simp_all add: appendDelta_def Let_def updateLastMessage_frame setCurrentTrans_frame)

lemma sealRole_frame:
  "trace (sealRole env r s) = trace s"
  "nextStartTime (sealRole env r s) = nextStartTime s"
  "audioSources (sealRole env r s) = audioSources s"
  "outputContext (sealRole env r s) = outputContext s"
  "connectionState (sealRole env r s) = connectionState s"
  by (simp_all add: sealRole_def updateLastMessage_frame setCurrentTrans_frame)

lemma sealTurn_frame:
  "trace (sealTurn env s) = trace s"
  "nextStartTime (sealTurn env s) = nextStartTime s"
  "audioSources (sealTurn env s) = audioSources s"
  "outputContext (sealTurn env s) = outputContext s"
  "connectionState (sealTurn env s) = connectionState s"
  by (simp_all add: sealTurn_sealRole sealRole_frame)

lemma transcript_part_frame:
  "trace (handleTurnComplete env msg (handleOutputTranscription env msg (handleInputTranscription env msg s))) = trace s"
  "nextStartTime (handleTurnComplete env msg (handleOutputTranscription env msg (handleInputTranscription env msg s))) = nextStartTime s"
  "audioSources (handleTurnComplete env msg (handleOutputTranscription env msg (handleInputTranscription env msg s))) = audioSources s"
  "outputContext (handleTurnComplete env msg (handleOutputTranscription env msg (handleInputTranscription env msg s))) = outputContext s"
  by (simp_all add: handleTurnComplete_def handleOutputTranscription_def handleInputTranscription_def
        sealTurn_frame appendDelta_frame split: option.splits)

lemma appendDelta_trace:
  "appendDelta env r t (s\<lparr>trace := tr\<rparr>) = (appendDelta env r t s)\<lparr>trace := tr\<rparr>"
  by (cases r) (simp_all add: appendDelta_def updateLastMessage_def Let_def)

lemma sealRole_trace:
  "sealRole env r (s\<lparr>trace := tr\<rparr>) = (sealRole env r s)\<lparr>trace := tr\<rparr>"
  by (cases r) (simp_all add: sealRole_def updateLastMessage_def Let_def)

lemma sealTurn_trace:
  "sealTurn env (s\<lparr>trace := tr\<rparr>) = (sealTurn env s)\<lparr>trace := tr\<rparr>"
  by (simp add: sealTurn_sealRole sealRole_trace)

lemma sealOnInterrupt_trace:
  "sealOnInterrupt env (s\<lparr>trace := tr\<rparr>) = (sealOnInterrupt env s)\<lparr>trace := tr\<rparr>"
  by (simp add: sealOnInterrupt_def updateLastMessage_def Let_def)

lemma transcript_handlers_trace:
  "handleInputTranscription env msg (s\<lparr>trace := tr\<rparr>) = (handleInputTranscription env msg s)\<lparr>trace := tr\<rparr>"
  "handleOutputTranscription env msg (s\<lparr>trace := tr\<rparr>) = (handleOutputTranscription env msg s)\<lparr>trace := tr\<rparr>"
  "handleTurnComplete env msg (s\<lparr>trace := tr\<rparr>) = (handleTurnComplete env msg s)\<lparr>trace := tr\<rparr>"
  by (simp_all add: handleInputTranscription_def handleOutputTranscription_def handleTurnComplete_def
        appendDelta_trace sealTurn_trace split: option.splits)

lemma handleAudio_trace:
  "(handleAudio env sc msg (s\<lparr>trace := tr\<rparr>))\<lparr>trace := X\<rparr> = (handleAudio env sc msg s)\<lparr>trace := X\<rparr>"
  by (simp add: handleAudio_def enqueue_def Let_def split: option.splits)

lemma sealOnInterrupt_trace_val: "trace (sealOnInterrupt env s) = trace s"
  by (simp add: sealOnInterrupt_def updateLastMessage_def Let_def)

lemma handleInterrupted_trace:
  "(handleInterrupted env msg (s\<lparr>trace := tr\<rparr>))\<lparr>trace := X\<rparr> = (handleInterrupted env msg s)\<lparr>trace := X\<rparr>"
proof -
  have "(stopAll env (s\<lparr>trace := tr\<rparr>)) = (stopAll env s)\<lparr>trace := trace (stopAll env (s\<lparr>trace := tr\<rparr>))\<rparr>"
    by (simp add: stopAll_def)
  then show ?thesis
    by (simp add: handleInterrupted_def) (metis sealOnInterrupt_trace App.update_convs(21) App.surjective)
qed


lemma onmessage_trace:
  "(onmessage env sc msg (s\<lparr>trace := tr\<rparr>))\<lparr>trace := X\<rparr> = (onmessage env sc msg s)\<lparr>trace := X\<rparr>"
proof -
  let ?T = "handleTurnComplete env msg (handleOutputTranscription env msg (handleInputTranscription env msg s))"
  let ?A = "handleAudio env sc msg ?T"
  let ?A' = "handleAudio env sc msg (?T\<lparr>trace := tr\<rparr>)"
  have a: "?A'\<lparr>trace := trace ?A\<rparr> = ?A"
    using handleAudio_trace [where s="?T" and tr=tr and X="trace ?A" and env=env and sc=sc and msg=msg] by simp
  have "?A' = ?A\<lparr>trace := trace ?A'\<rparr>"
    using handleAudio_trace [where s="?T" and tr=tr and X="trace ?A'" and env=env and sc=sc and msg=msg] by simp
  then have "(handleInterrupted env msg ?A')\<lparr>trace := X\<rparr> = (handleInterrupted env msg ?A)\<lparr>trace := X\<rparr>"
    using handleInterrupted_trace [where s="?A" and tr="trace ?A'" and X=X and env=env and msg=msg] by simp
  then show ?thesis
    by (simp add: onmessage_def transcript_handlers_trace)
qed

lemma upToTrace:
  assumes "s\<lparr>trace := []\<rparr> = s'\<lparr>trace := []\<rparr>"
  shows "s' = s\<lparr>trace := trace s'\<rparr>"
proof -
  have "s' = (s'\<lparr>trace := []\<rparr>)\<lparr>trace := trace s'\<rparr>" by simp
  also have "\<dots> = (s\<lparr>trace := []\<rparr>)\<lparr>trace := trace s'\<rparr>" using assms by simp
  finally show ?thesis by simp
qed

lemma onmessages_upToTrace:
  "s\<lparr>trace := []\<rparr> = s'\<lparr>trace := []\<rparr> \<Longrightarrow>
   (onmessages env sc msgs s)\<lparr>trace := []\<rparr> = (onmessages env sc msgs s')\<lparr>trace := []\<rparr>"
proof (induction msgs arbitrary: s s')
  case Nil
  then show ?case by simp
next
  case (Cons m msgs)
  have "s' = s\<lparr>trace := trace s'\<rparr>" using Cons.prems by (rule upToTrace)
  then have "onmessage env sc m s' = onmessage env sc m (s\<lparr>trace := trace s'\<rparr>)"
    by (rule arg_cong)
  then have "(onmessage env sc m s)\<lparr>trace := []\<rparr> = (onmessage env sc m s')\<lparr>trace := []\<rparr>"
    by (simp only: onmessage_trace)
  then have "(onmessages env sc msgs (onmessage env sc m s))\<lparr>trace := []\<rparr>
           = (onmessages env sc msgs (onmessage env sc m s'))\<lparr>trace := []\<rparr>"
    by (rule Cons.IH)
  then show ?case by simp
qed

section \<open>Decoding errors\<close>

text \<open>
  C9. When the bytes of an inbound audio payload fail to decode, the audio branch logs
  the error and drops the chunk: the session state, the transcript log, the playback
  clock and the live-segment set are as before. The handler goes on with the rest of
  the message and with the later messages, and apart from the logged error the state
  after them is the state they would have produced had the payload not been there.
\<close>

theorem decode_error_drops_chunk:
  assumes "audioData msg = Some d" and "decodeAudioData env d = None"
  shows "handleAudio env sc msg s =
           (if d \<noteq> [] \<and> outputContext s \<and> \<not> r_isSpeakerMuted sc
            then s\<lparr>trace := trace s @ [ConsoleError ''Error decoding audio'']\<rparr>
            else s)
       \<and> connectionState (handleAudio env sc msg s) = connectionState s
       \<and> messages (handleAudio env sc msg s) = messages s
       \<and> nextStartTime (handleAudio env sc msg s) = nextStartTime s
       \<and> audioSources (handleAudio env sc msg s) = audioSources s
       \<and> (onmessages env sc (msg # rest) s)\<lparr>trace := []\<rparr>
           = (onmessages env sc (msg\<lparr>audioData := None\<rparr> # rest) s)\<lparr>trace := []\<rparr>"
proof -
  let ?msg' = "msg\<lparr>audioData := None\<rparr>"
  let ?T = "handleTurnComplete env msg
              (handleOutputTranscription env msg (handleInputTranscription env msg s))"
  have h: "handleAudio env sc msg u =
           (if d \<noteq> [] \<and> outputContext u \<and> \<not> r_isSpeakerMuted sc
            then u\<lparr>trace := trace u @ [ConsoleError ''Error decoding audio'']\<rparr>
            else u)" for u
    using assms by (simp add: handleAudio_def)
  have t: "handleTurnComplete env ?msg'
             (handleOutputTranscription env ?msg' (handleInputTranscription env ?msg' s)) = ?T"
    by (simp add: handleInputTranscription_def handleOutputTranscription_def
          handleTurnComplete_def)
  have a: "handleAudio env sc ?msg' u = u" for u
    by (simp add: handleAudio_def)
  have i: "handleInterrupted env ?msg' u = handleInterrupted env msg u" for u
    by (simp add: handleInterrupted_def)
  have m': "onmessage env sc ?msg' s = handleInterrupted env msg ?T"
    unfolding onmessage_def t a i ..
  have m: "onmessage env sc msg s = handleInterrupted env msg (handleAudio env sc msg ?T)"
    unfolding onmessage_def ..
  have "(handleInterrupted env msg (handleAudio env sc msg ?T))\<lparr>trace := []\<rparr>
      = (handleInterrupted env msg ?T)\<lparr>trace := []\<rparr>"
  proof (cases "d \<noteq> [] \<and> outputContext ?T \<and> \<not> r_isSpeakerMuted sc")
    case True
    then have "handleAudio env sc msg ?T
                 = ?T\<lparr>trace := trace ?T @ [ConsoleError ''Error decoding audio'']\<rparr>"
      by (simp add: h)
    then show ?thesis by (simp only: handleInterrupted_trace)
  next
    case False
    then have "handleAudio env sc msg ?T = ?T" by (simp add: h)
    then show ?thesis by simp
  qed
  then have "(onmessage env sc msg s)\<lparr>trace := []\<rparr> = (onmessage env sc ?msg' s)\<lparr>trace := []\<rparr>"
    by (simp only: m m')
  then have "(onmessages env sc rest (onmessage env sc msg s))\<lparr>trace := []\<rparr>
           = (onmessages env sc rest (onmessage env sc ?msg' s))\<lparr>trace := []\<rparr>"
    by (rule onmessages_upToTrace)
  then have "(onmessages env sc (msg # rest) s)\<lparr>trace := []\<rparr>
           = (onmessages env sc (?msg' # rest) s)\<lparr>trace := []\<rparr>"
    by simp
  moreover have "connectionState (handleAudio env sc msg s) = connectionState s"
    "messages (handleAudio env sc msg s) = messages s"
    "nextStartTime (handleAudio env sc msg s) = nextStartTime s"
    "audioSources (handleAudio env sc msg s) = audioSources s"
    by (simp_all add: h)
  ultimately show ?thesis using h [of s] by simp
qed

theorem decode_error_drops_chunk_witness:
  "audioData (emptyMessage\<lparr>audioData := Some ''!''\<rparr>) = Some ''!''
   \<and> decodeAudioData (demoEnv None) ''!'' = None
   \<and> handleAudio (demoEnv None) demoScope (emptyMessage\<lparr>audioData := Some ''!''\<rparr>) playingApp
       = playingApp\<lparr>trace := [ConsoleError ''Error decoding audio'']\<rparr>
   \<and> nextStartTime
         (handleAudio (demoEnv None) demoScope (emptyMessage\<lparr>audioData := Some ''!''\<rparr>)
            playingApp) = 9"
  using decode_error_drops_chunk
          [of "emptyMessage\<lparr>audioData := Some ''!''\<rparr>" "''!''" "demoEnv None" demoScope
              playingApp "[]"]
  by (simp add: emptyMessage_def demoEnv_def demoScope_def scopeOf_def playingApp_def
        initialApp_def)

section \<open>Playback\<close>

text \<open>Rounding to the nearest double: bounds, error, and order.\<close>

lemma binade_bounds:
  assumes "0 < x"
  shows "2 powi (binade x) \<le> x \<and> x < 2 powi (binade x + 1)"
proof (cases "1 \<le> x")
  case True
  define n where "n = nat \<lfloor>x\<rfloor>"
  have n: "0 < n" "real n \<le> x" "x < real n + 1"
    using True by (auto simp: n_def)
  have b: "2 ^ (floorlog 2 n - 1) \<le> n \<and> n < 2 ^ (floorlog 2 n)"
    using floorlog_bounds [of n 2] n(1) by simp
  have pos: "0 < floorlog 2 n" using n(1) by (simp add: floorlog_def)
  have e: "binade x = int (floorlog 2 n - 1)" "binade x + 1 = int (floorlog 2 n)"
    using True pos by (simp_all add: binade_def n_def)
  have "(2::real) ^ (floorlog 2 n - 1) \<le> real n"
    using of_nat_mono [OF conjunct1 [OF b], where ?'a = real] by simp
  moreover have "2 powi (binade x) = (2::real) ^ (floorlog 2 n - 1)"
    by (simp only: e(1) power_int_of_nat)
  ultimately have lo: "2 powi (binade x) \<le> x" using n(2) by linarith
  have "n + 1 \<le> 2 ^ (floorlog 2 n)" using b by simp
  then have "real n + 1 \<le> 2 ^ (floorlog 2 n)"
    using of_nat_mono [of "n + 1" "2 ^ (floorlog 2 n)", where ?'a = real] by simp
  moreover have "2 powi (binade x + 1) = (2::real) ^ (floorlog 2 n)"
    by (simp only: e(2) power_int_of_nat)
  ultimately have hi: "x < 2 powi (binade x + 1)" using n(3) by linarith
  show ?thesis using lo hi by simp
next
  case False
  then have x1: "x < 1" by simp
  define y where "y = 1 / x"
  have y1: "1 < y" using assms x1 by (simp add: y_def)
  define c where "c = nat \<lceil>y\<rceil>"
  have c: "2 \<le> c" "y \<le> real c" "real c - 1 < y"
    using y1 by (auto simp: c_def) linarith+
  define k where "k = floorlog 2 (c - 1)"
  have b: "2 ^ (k - 1) \<le> c - 1 \<and> c - 1 < 2 ^ k"
    using floorlog_bounds [of "c - 1" 2] c(1) by (simp add: k_def)
  have kpos: "0 < k" using c(1) by (simp add: k_def floorlog_def)
  have e: "binade x = - int k" using False by (simp add: binade_def k_def c_def y_def)
  have "c \<le> 2 ^ k" using b c(1) by linarith
  then have "real c \<le> 2 ^ k"
    using of_nat_mono [of c "2 ^ k", where ?'a = real] by simp
  then have yk: "y \<le> 2 ^ k" using c(2) by linarith
  have "(2::real) ^ (k - 1) \<le> real (c - 1)"
    using of_nat_mono [OF conjunct1 [OF b], where ?'a = real] by simp
  moreover have "real (c - 1) = real c - 1" using c(1) by (simp add: of_nat_diff)
  ultimately have ky: "2 ^ (k - 1) < y" using c(3) by linarith
  have lo: "2 powi (- int k) \<le> x"
  proof -
    have "1 / 2 ^ k \<le> 1 / y" using yk y1 by (simp add: frac_le)
    moreover have "1 / y = x" by (simp add: y_def)
    moreover have "2 powi (- int k) = 1 / (2::real) ^ k"
      by (simp only: power_int_minus_divide power_int_of_nat)
    ultimately show ?thesis by linarith
  qed
  have hi: "x < 2 powi (- int k + 1)"
  proof -
    have "1 / y < 1 / 2 ^ (k - 1)" using ky by (simp add: frac_less2)
    moreover have "1 / y = x" by (simp add: y_def)
    moreover have "- int k + 1 = - int (k - 1)" using kpos by simp
    then have "2 powi (- int k + 1) = 1 / (2::real) ^ (k - 1)"
      by (simp only: power_int_minus_divide power_int_of_nat)
    ultimately show ?thesis by linarith
  qed
  show ?thesis using lo hi unfolding e by simp
qed

lemma ulp_pos: "0 < ulp x"
  by (simp add: ulp_def)

lemma roundTiesToEven_ge: "of_int m \<le> y \<Longrightarrow> m \<le> roundTiesToEven y"
proof -
  assume "of_int m \<le> y"
  then have "m \<le> \<lfloor>y\<rfloor>" by (simp add: le_floor_iff)
  then show ?thesis by (simp add: roundTiesToEven_def)
qed

lemma roundTiesToEven_le: "y \<le> of_int m \<Longrightarrow> roundTiesToEven y \<le> m"
proof -
  assume a: "y \<le> of_int m"
  show ?thesis
  proof (cases "y = of_int \<lfloor>y\<rfloor>")
    case True
    then have "\<lfloor>y\<rfloor> \<le> m" using a by linarith
    then show ?thesis using True by (simp add: roundTiesToEven_def)
  next
    case False
    moreover have "of_int \<lfloor>y\<rfloor> \<le> y" by linarith
    ultimately have "of_int \<lfloor>y\<rfloor> < y" by linarith
    then have "of_int \<lfloor>y\<rfloor> < (of_int m :: real)" using a by linarith
    then have "\<lfloor>y\<rfloor> + 1 \<le> m" by simp
    moreover have "\<lfloor>y\<rfloor> \<le> m" using calculation by simp
    ultimately show ?thesis by (simp add: roundTiesToEven_def)
  qed
qed

lemma roundTiesToEven_error: "\<bar>of_int (roundTiesToEven y) - y\<bar> \<le> 1 / 2"
proof -
  have "of_int \<lfloor>y\<rfloor> \<le> y" "y < of_int \<lfloor>y\<rfloor> + 1" by linarith+
  then show ?thesis by (auto simp: roundTiesToEven_def)
qed

lemma double_round_error: "0 \<le> x \<Longrightarrow> \<bar>double_round x - x\<bar> \<le> ulp x / 2"
proof (cases "x = 0")
  case True
  then show ?thesis using ulp_pos [of 0] by (simp add: double_round_def)
next
  case False
  assume "0 \<le> x"
  then have x: "0 < x" using False by simp
  have "\<bar>double_round x - x\<bar> = ulp x * \<bar>of_int (roundTiesToEven (x / ulp x)) - x / ulp x\<bar>"
  proof -
    have "double_round x - x = ulp x * (of_int (roundTiesToEven (x / ulp x)) - x / ulp x)"
      using x ulp_pos [of x] by (simp add: double_round_def algebra_simps)
    then show ?thesis using ulp_pos [of x] by (simp add: abs_mult)
  qed
  also have "\<dots> \<le> ulp x * (1 / 2)"
    using roundTiesToEven_error [of "x / ulp x"] ulp_pos [of x]
    by (intro mult_left_mono) simp_all
  finally show ?thesis by simp
qed

lemma double_round_nonneg: "0 \<le> x \<Longrightarrow> 0 \<le> double_round x"
proof (cases "x = 0")
  case True
  then show ?thesis by (simp add: double_round_def)
next
  case False
  assume "0 \<le> x"
  then have x: "0 < x" using False by simp
  have "(of_int 0 :: real) \<le> x / ulp x" using x ulp_pos [of x] by simp
  then have "0 \<le> roundTiesToEven (x / ulp x)" by (rule roundTiesToEven_ge)
  then show ?thesis using x ulp_pos [of x] by (simp add: double_round_def)
qed

lemma double_round_isDouble:
  assumes "0 \<le> x"
  shows "isDouble (double_round x)"
proof (cases "x = 0")
  case True
  have "(0::real) = of_int 0 * 2 powi 0" by simp
  then show ?thesis unfolding isDouble_def True double_round_def
    by (intro exI [of _ 0]) simp
next
  case False
  then have x: "0 < x" using assms by simp
  define u where "u = max (binade x - 52) (- 1074)"
  have q: "ulp x = 2 powi u" by (simp add: ulp_def u_def)
  define n where "n = roundTiesToEven (x / ulp x)"
  have n0: "0 \<le> n"
  proof -
    have "(of_int 0 :: real) \<le> x / ulp x" using x ulp_pos [of x] by simp
    then show ?thesis unfolding n_def by (rule roundTiesToEven_ge)
  qed
  have "x < 2 powi (binade x + 1)" using binade_bounds [OF x] by simp
  also have "\<dots> \<le> 2 powi (u + 53)"
    by (intro power_int_increasing) (simp_all add: u_def)
  also have "\<dots> = 2 powi u * 2 ^ 53" by (simp add: power_int_add)
  finally have "x / ulp x \<le> of_int (2 ^ 53)"
    using ulp_pos [of x] by (simp add: q pos_divide_le_eq mult.commute)
  then have "n \<le> 2 ^ 53" unfolding n_def by (rule roundTiesToEven_le)
  then have "\<bar>n\<bar> \<le> 2 ^ 53" using n0 by simp
  moreover have "double_round x = of_int n * 2 powi u"
    using x by (simp add: double_round_def n_def q)
  moreover have "- 1074 \<le> u" by (simp add: u_def)
  ultimately show ?thesis unfolding isDouble_def by blast
qed

lemma double_round_above:
  assumes "isDouble t" and "0 < t" and "t \<le> x"
  shows "t \<le> double_round x"
proof -
  have x: "0 < x" using assms by simp
  obtain m v where v: "- 1074 \<le> v" and m: "\<bar>m\<bar> \<le> 2 ^ 53" and t: "t = of_int m * 2 powi v"
    using assms(1) unfolding isDouble_def by blast
  define u where "u = max (binade x - 52) (- 1074)"
  have q: "ulp x = 2 powi u" by (simp add: ulp_def u_def)
  have fl: "double_round x = 2 powi u * of_int (roundTiesToEven (x / 2 powi u))"
    using x by (simp add: double_round_def q)
  show ?thesis
  proof (cases "u \<le> v")
    case True
    then obtain d where d: "v = u + int d" by (metis zle_iff_zadd)
    have tm: "t = 2 powi u * of_int (m * 2 ^ d)"
      unfolding t d by (simp add: power_int_add)
    have "of_int (m * 2 ^ d) \<le> x / 2 powi u"
    proof -
      have "2 powi u * of_int (m * 2 ^ d) \<le> x" using assms(3) tm by simp
      then show ?thesis by (simp add: pos_le_divide_eq mult.commute)
    qed
    then have "m * 2 ^ d \<le> roundTiesToEven (x / 2 powi u)" by (rule roundTiesToEven_ge)
    then have "(of_int (m * 2 ^ d) :: real) \<le> of_int (roundTiesToEven (x / 2 powi u))"
      by (simp only: of_int_le_iff)
    then show ?thesis unfolding fl tm by (intro mult_left_mono) simp_all
  next
    case False
    then have vu: "v + 1 \<le> u" by simp
    then have un: "u = binade x - 52" using v by (simp add: u_def)
    have "t \<le> 2 ^ 53 * 2 powi v"
    proof -
      have "m \<le> 2 ^ 53" using m by simp
      then have "(of_int m :: real) \<le> of_int (2 ^ 53)" by (simp only: of_int_le_iff)
      then show ?thesis unfolding t by (intro mult_right_mono) simp_all
    qed
    also have "\<dots> = 2 powi (v + 53)" by (simp add: power_int_add)
    also have "\<dots> \<le> 2 powi (u + 52)"
      using vu by (intro power_int_increasing) simp_all
    finally have t52: "t \<le> 2 powi (u + 52)" .
    have g: "(2::real) powi (u + 52) = 2 powi u * of_int (2 ^ 52)" by (simp add: power_int_add)
    have "2 powi (u + 52) \<le> x" using binade_bounds [OF x] un by simp
    then have "of_int (2 ^ 52) \<le> x / 2 powi u"
      unfolding g by (simp add: pos_le_divide_eq mult.commute)
    then have "2 ^ 52 \<le> roundTiesToEven (x / 2 powi u)" by (rule roundTiesToEven_ge)
    then have "(of_int (2 ^ 52) :: real) \<le> of_int (roundTiesToEven (x / 2 powi u))"
      by (simp only: of_int_le_iff)
    then have "2 powi u * of_int (2 ^ 52) \<le> double_round x"
      unfolding fl by (intro mult_left_mono) simp_all
    then show ?thesis using t52 g by simp
  qed
qed

lemma timeValue_isDouble: "timeValue t \<Longrightarrow> isDouble t"
  using double_round_isDouble [of t] by (simp add: timeValue_def)

lemma plus64_above:
  assumes "isDouble t" and "0 \<le> t" and "0 \<le> d"
  shows "t \<le> plus64 t d"
proof (cases "t = 0")
  case True
  then show ?thesis using assms(3) double_round_nonneg [of d] by (simp add: plus64_def)
next
  case False
  then have "0 < t" using assms(2) by simp
  then show ?thesis
    using double_round_above [OF assms(1), of "t + d"] assms(3) by (simp add: plus64_def)
qed


lemma duration_nonneg: "0 \<le> duration b"
  by (simp add: duration_def double_round_nonneg)

lemma clockValue_max: "clockValue a \<Longrightarrow> clockValue b \<Longrightarrow> clockValue (max a b)"
  by (simp add: max_def)

lemma clockValue_plus64:
  assumes "clockValue t" and "0 \<le> d"
  shows "clockValue (plus64 t d) \<and> t \<le> plus64 t d"
proof -
  have t: "0 \<le> t" "isDouble t" using assms(1) by (simp_all add: clockValue_def)
  have "0 \<le> t + d" using t(1) assms(2) by simp
  then have "0 \<le> plus64 t d" "isDouble (plus64 t d)"
    unfolding plus64_def by (rule double_round_nonneg, rule double_round_isDouble)
  moreover have "t \<le> plus64 t d" using t assms(2) by (intro plus64_above)
  ultimately show ?thesis by (simp add: clockValue_def)
qed

lemma timeValue_clockValue: "timeValue x \<Longrightarrow> clockValue x"
  using timeValue_isDouble [of x] by (simp add: clockValue_def timeValue_def)

lemma scheduled_append: "scheduled (xs @ ys) = scheduled xs @ scheduled ys"
  by (induction xs rule: scheduled.induct) simp_all

lemma backToBack_weaken: "lo' \<le> lo \<Longrightarrow> backToBack lo sch hi \<Longrightarrow> backToBack lo' sch hi"
  by (cases sch) auto

lemma backToBack_append:
  "backToBack a xs b \<Longrightarrow> backToBack b ys c \<Longrightarrow> backToBack a (xs @ ys) c"
proof (induction xs arbitrary: a)
  case Nil
  then show ?case using backToBack_weaken by simp
next
  case (Cons x xs)
  then show ?case by (cases x) simp
qed

lemma backToBack_entry:
  "backToBack lo sch hi \<Longrightarrow> x \<in> set sch \<Longrightarrow>
   lo \<le> fst x \<and> 0 \<le> fst x \<and> 0 \<le> snd x \<and> fst x \<le> plus64 (fst x) (snd x)"
proof (induction sch arbitrary: lo)
  case Nil
  then show ?case by simp
next
  case (Cons y sch)
  obtain t d where y: "y = (t, d)" by (cases y)
  have h: "lo \<le> t" "0 \<le> t" "0 \<le> d" "t \<le> plus64 t d" "backToBack (plus64 t d) sch hi"
    using Cons.prems(1) y by simp_all
  show ?case
  proof (cases "x = y")
    case True
    then show ?thesis using h y by simp
  next
    case False
    then have "x \<in> set sch" using Cons.prems(2) by simp
    then have "plus64 t d \<le> fst x \<and> 0 \<le> fst x \<and> 0 \<le> snd x
             \<and> fst x \<le> plus64 (fst x) (snd x)"
      using Cons.IH [OF h(5)] by simp
    then show ?thesis using h by simp
  qed
qed

lemma backToBack_pairwise:
  "backToBack lo sch hi \<Longrightarrow> i < j \<Longrightarrow> j < length sch \<Longrightarrow>
   plus64 (fst (sch ! i)) (snd (sch ! i)) \<le> fst (sch ! j)"
proof (induction sch arbitrary: lo i j)
  case Nil
  then show ?case by simp
next
  case (Cons y sch)
  obtain t d where y: "y = (t, d)" by (cases y)
  have rest: "backToBack (plus64 t d) sch hi" using Cons.prems y by simp
  obtain j' where j: "j = Suc j'" using Cons.prems by (cases j) auto
  show ?case
  proof (cases i)
    case 0
    have "sch ! j' \<in> set sch" using Cons.prems j by simp
    then have "plus64 t d \<le> fst (sch ! j')" using backToBack_entry [OF rest] by blast
    then show ?thesis using 0 j y by simp
  next
    case (Suc i')
    then have "plus64 (fst (sch ! i')) (snd (sch ! i')) \<le> fst (sch ! j')"
      using Cons.IH [OF rest, of i' j'] Cons.prems j by simp
    then show ?thesis using Suc j by simp
  qed
qed

lemma enqueue_fields:
  "audioSources (enqueue env b s)
     = audioSources s @ [\<lparr>sid = sourcesCreated s, buffer = b,
          startAt = max (nextStartTime s) (currentTime env (timeReads s))\<rparr>]"
  "trace (enqueue env b s)
     = trace s @ [SourceStart (sourcesCreated s)
          (max (nextStartTime s) (currentTime env (timeReads s))) (duration b)]"
  "nextStartTime (enqueue env b s)
     = plus64 (max (nextStartTime s) (currentTime env (timeReads s))) (duration b)"
  by (simp_all add: enqueue_def Let_def)

lemma handleAudio_sched:
  assumes "clockValue (nextStartTime s)" and "\<forall>k. clockValue (currentTime env k)"
  shows "\<exists>new. trace (handleAudio env sc msg s) = trace s @ new
        \<and> backToBack (nextStartTime s) (scheduled new) (nextStartTime (handleAudio env sc msg s))
        \<and> clockValue (nextStartTime (handleAudio env sc msg s))"
proof (cases "\<exists>d b. audioData msg = Some d \<and> d \<noteq> [] \<and> outputContext s \<and> \<not> r_isSpeakerMuted sc
                 \<and> decodeAudioData env d = Some b")
  case True
  then obtain d b where "audioData msg = Some d" "d \<noteq> []" "outputContext s"
      "\<not> r_isSpeakerMuted sc" "decodeAudioData env d = Some b" by blast
  then have h: "handleAudio env sc msg s = enqueue env b s" by (simp add: handleAudio_def)
  let ?t = "max (nextStartTime s) (currentTime env (timeReads s))"
  have t: "clockValue ?t" using assms by (intro clockValue_max) simp_all
  have p: "clockValue (plus64 ?t (duration b)) \<and> ?t \<le> plus64 ?t (duration b)"
    using t duration_nonneg by (rule clockValue_plus64)
  have "0 \<le> ?t" using t by (simp add: clockValue_def)
  then have "backToBack (nextStartTime s) [(?t, duration b)] (plus64 ?t (duration b))"
    using p duration_nonneg by simp
  then show ?thesis using p unfolding h by (simp add: enqueue_fields)
next
  case False
  then have "nextStartTime (handleAudio env sc msg s) = nextStartTime s
         \<and> (trace (handleAudio env sc msg s) = trace s
            \<or> trace (handleAudio env sc msg s) = trace s @ [ConsoleError ''Error decoding audio''])"
    by (auto simp: handleAudio_def split: option.splits)
  then show ?thesis using assms(1) by auto
qed

lemma onmessage_sched:
  assumes "interrupted msg \<noteq> Some True"
    and "clockValue (nextStartTime s)" and "\<forall>k. clockValue (currentTime env k)"
  shows "\<exists>new. trace (onmessage env sc msg s) = trace s @ new
        \<and> backToBack (nextStartTime s) (scheduled new) (nextStartTime (onmessage env sc msg s))
        \<and> clockValue (nextStartTime (onmessage env sc msg s))"
proof -
  let ?T = "handleTurnComplete env msg
              (handleOutputTranscription env msg (handleInputTranscription env msg s))"
  have o: "onmessage env sc msg s = handleAudio env sc msg ?T"
    using assms(1) by (simp add: onmessage_def handleInterrupted_def)
  have c: "clockValue (nextStartTime ?T)" using assms(2) by (simp add: transcript_part_frame)
  show ?thesis
    using handleAudio_sched [OF c assms(3), of sc msg] unfolding o
    by (simp add: transcript_part_frame)
qed

lemma quiet_sched:
  "nextStartTime s' = nextStartTime s \<Longrightarrow> trace s' = trace s @ new \<Longrightarrow> scheduled new = [] \<Longrightarrow>
   clockValue (nextStartTime s) \<Longrightarrow>
   \<exists>new. trace s' = trace s @ new
       \<and> backToBack (nextStartTime s) (scheduled new) (nextStartTime s')
       \<and> clockValue (nextStartTime s')"
  by auto

lemma step_sched:
  assumes "keepsPlayback e"
    and "clockValue (nextStartTime s)" and "\<forall>k. clockValue (currentTime env k)"
  shows "\<exists>new. trace (step env e s) = trace s @ new
        \<and> backToBack (nextStartTime s) (scheduled new) (nextStartTime (step env e s))
        \<and> clockValue (nextStartTime (step env e s))"
proof (cases e)
  case (Click c)
  then have "c \<noteq> EndButton" using assms(1) by simp
  then have "nextStartTime (step env e s) = nextStartTime s
        \<and> (trace (step env e s) = trace s @ [] \<or> trace (step env e s) = trace s @ [GetUserMedia])"
    using Click by (cases c) (auto simp: connect_def setupAudioContexts_def swapLanguages_def)
  then show ?thesis using assms(2) by (auto intro: quiet_sched)
next
  case UserMediaResolved
  then show ?thesis using assms(2)
    by (auto simp: connectStream_def split: option.splits intro: quiet_sched)
next
  case Open
  then have "nextStartTime (step env e s) = nextStartTime s
        \<and> (trace (step env e s) = trace s @ [] \<or> trace (step env e s) = trace s @ [ResumeInput])"
    by (auto simp: onopen_def Let_def split: option.splits)
  then show ?thesis using assms(2) by (auto intro: quiet_sched)
next
  case (Message msg)
  show ?thesis
  proof (cases "session s")
    case None
    then show ?thesis using Message assms(2) by (auto intro: quiet_sched)
  next
    case (Some sc)
    have "interrupted msg \<noteq> Some True" using assms(1) Message by simp
    then show ?thesis
      using onmessage_sched [OF _ assms(2) assms(3), of msg sc] Message Some by simp
  qed
next
  case (AudioProcess d)
  then have "nextStartTime (step env e s) = nextStartTime s
        \<and> (trace (step env e s) = trace s @ []
           \<or> trace (step env e s) = trace s @ [SendRealtimeInput (createAudioBlob env d)])"
    by (auto simp: onaudioprocess_def split: option.splits)
  then show ?thesis using assms(2) by (auto intro: quiet_sched)
next
  case (Ended i)
  then show ?thesis using assms(2) by (auto simp: ended_def intro: quiet_sched)
qed (use assms in auto)

lemma run_sched:
  "\<forall>e \<in> set es. keepsPlayback e \<Longrightarrow> clockValue (nextStartTime s) \<Longrightarrow>
   \<forall>k. clockValue (currentTime env k) \<Longrightarrow>
   \<exists>new. trace (run env es s) = trace s @ new
        \<and> backToBack (nextStartTime s) (scheduled new) (nextStartTime (run env es s))"
proof (induction es arbitrary: s)
  case Nil
  then show ?case by simp
next
  case (Cons e es)
  obtain n1 where 1: "trace (step env e s) = trace s @ n1"
      "backToBack (nextStartTime s) (scheduled n1) (nextStartTime (step env e s))"
      "clockValue (nextStartTime (step env e s))"
    using step_sched [of e s env] Cons.prems by auto
  obtain n2 where 2: "trace (run env es (step env e s)) = trace (step env e s) @ n2"
      "backToBack (nextStartTime (step env e s)) (scheduled n2)
         (nextStartTime (run env es (step env e s)))"
    using Cons.IH [OF _ 1(3)] Cons.prems by auto
  have "trace (run env (e # es) s) = trace s @ (n1 @ n2)" using 1 2 by simp
  moreover have "backToBack (nextStartTime s) (scheduled (n1 @ n2))
                   (nextStartTime (run env (e # es) s))"
    using 1 2 backToBack_append by (simp add: scheduled_append)
  ultimately show ?case by blast
qed

lemmas double_defs =
  plus64_def double_round_def ulp_def binade_def roundTiesToEven_def compute_floorlog
  duration_def

lemmas playback_defs =
  tenthsEnv_def initialApp_def connect_def setupAudioContexts_def scopeOf_def
  connectStream_def onopen_def emptyMessage_def onmessage_def handleInputTranscription_def
  handleOutputTranscription_def handleTurnComplete_def handleAudio_def
  handleInterrupted_def enqueue_def Let_def

text \<open>
  C4, as the specification words it, fails: the clock is advanced by an addition of
  doubles, which rounds. Three chunks of 0.1 s, 0.7 s and 0.1 s arrive while the device
  clock stands at 0. The second segment starts at the double 0.1 and lasts the double
  0.7; their double sum, where the third segment starts, is 0.7999999999999999, which is
  below the exact sum of the two: the third segment starts before the second one ends.
\<close>

theorem rounded_clock_counterexample:
  "scheduled (trace (run tenthsEnv
       [Click StartButton, UserMediaResolved, Open,
        Message (emptyMessage\<lparr>audioData := Some ''a''\<rparr>),
        Message (emptyMessage\<lparr>audioData := Some ''aaaaaaa''\<rparr>),
        Message (emptyMessage\<lparr>audioData := Some ''a''\<rparr>)] initialApp))
     = [(0, 3602879701896397 / 2 ^ 55),
        (3602879701896397 / 2 ^ 55, 3152519739159347 / 2 ^ 52),
        (7205759403792793 / 2 ^ 53, 3602879701896397 / 2 ^ 55)]
   \<and> (7205759403792793 / 2 ^ 53 :: real)
       < 3602879701896397 / 2 ^ 55 + 3152519739159347 / 2 ^ 52"
  by (simp add: playback_defs double_defs)


text \<open>
  C4, amended. \<open>enqueue\<close> starts the decoded segment at the maximum of the playback
  clock and the device time and then sets the clock to the double sum of that start and
  the segment's duration, the double nearest to the exact sum; the audio branch of the
  message handler is \<open>enqueue\<close> whenever the payload decodes and output is not muted.
  Hence, with a clock and device times that are doubles and not negative, over any
  sequence of events that does not run a stop path, of any two segments started in that
  sequence the later one starts no earlier than the clock value the earlier one left
  behind (the double sum of its start and duration) and no earlier than the earlier one
  starts: the segments play in the order they were enqueued. The later start can lie
  below the exact sum of the earlier start and duration by the rounding error of that one
  addition, at most half a unit in the last place.
\<close>

theorem playback_order_rounded:
  "audioSources (enqueue env b s)
     = audioSources s @ [\<lparr>sid = sourcesCreated s, buffer = b,
          startAt = max (nextStartTime s) (currentTime env (timeReads s))\<rparr>]
   \<and> trace (enqueue env b s)
     = trace s @ [SourceStart (sourcesCreated s)
          (max (nextStartTime s) (currentTime env (timeReads s))) (duration b)]
   \<and> nextStartTime (enqueue env b s)
     = plus64 (max (nextStartTime s) (currentTime env (timeReads s))) (duration b)
   \<and> (audioData msg = Some d \<and> d \<noteq> [] \<and> outputContext s \<and> \<not> r_isSpeakerMuted sc
        \<and> decodeAudioData env d = Some b \<longrightarrow> handleAudio env sc msg s = enqueue env b s)
   \<and> (timeValue (nextStartTime s) \<and> (\<forall>k. timeValue (currentTime env k))
        \<and> (\<forall>e \<in> set es. keepsPlayback e) \<longrightarrow>
        (\<forall>i j. i < j \<and> j < length (scheduled (drop (length (trace s)) (trace (run env es s)))) \<longrightarrow>
           plus64 (fst (scheduled (drop (length (trace s)) (trace (run env es s))) ! i))
                  (snd (scheduled (drop (length (trace s)) (trace (run env es s))) ! i))
             \<le> fst (scheduled (drop (length (trace s)) (trace (run env es s))) ! j)
         \<and> fst (scheduled (drop (length (trace s)) (trace (run env es s))) ! i)
             \<le> fst (scheduled (drop (length (trace s)) (trace (run env es s))) ! j)
         \<and> fst (scheduled (drop (length (trace s)) (trace (run env es s))) ! i)
             + snd (scheduled (drop (length (trace s)) (trace (run env es s))) ! i)
             - ulp (fst (scheduled (drop (length (trace s)) (trace (run env es s))) ! i)
                    + snd (scheduled (drop (length (trace s)) (trace (run env es s))) ! i)) / 2
             \<le> fst (scheduled (drop (length (trace s)) (trace (run env es s))) ! j)))"
proof -
  let ?sch = "scheduled (drop (length (trace s)) (trace (run env es s)))"
  have ord: "timeValue (nextStartTime s) \<and> (\<forall>k. timeValue (currentTime env k))
        \<and> (\<forall>e \<in> set es. keepsPlayback e) \<longrightarrow>
        (\<forall>i j. i < j \<and> j < length ?sch \<longrightarrow>
           plus64 (fst (?sch ! i)) (snd (?sch ! i)) \<le> fst (?sch ! j)
         \<and> fst (?sch ! i) \<le> fst (?sch ! j)
         \<and> fst (?sch ! i) + snd (?sch ! i) - ulp (fst (?sch ! i) + snd (?sch ! i)) / 2
             \<le> fst (?sch ! j))"
  proof (intro impI allI)
    fix i j
    assume h: "timeValue (nextStartTime s) \<and> (\<forall>k. timeValue (currentTime env k))
        \<and> (\<forall>e \<in> set es. keepsPlayback e)"
      and ij: "i < j \<and> j < length ?sch"
    have c: "clockValue (nextStartTime s)" "\<forall>k. clockValue (currentTime env k)"
      using h timeValue_clockValue by simp_all
    have kp: "\<forall>e \<in> set es. keepsPlayback e" using h by simp
    obtain new where n: "trace (run env es s) = trace s @ new"
      "backToBack (nextStartTime s) (scheduled new) (nextStartTime (run env es s))"
      using run_sched [OF kp c] by blast
    have d: "?sch = scheduled new" using n by simp
    have 1: "plus64 (fst (?sch ! i)) (snd (?sch ! i)) \<le> fst (?sch ! j)"
      using backToBack_pairwise [OF n(2), of i j] ij unfolding d by simp
    have "scheduled new ! i \<in> set (scheduled new)" using ij unfolding d by simp
    then have e: "0 \<le> fst (?sch ! i)" "0 \<le> snd (?sch ! i)"
      "fst (?sch ! i) \<le> plus64 (fst (?sch ! i)) (snd (?sch ! i))"
      using backToBack_entry [OF n(2)] unfolding d by simp_all
    have 2: "fst (?sch ! i) \<le> fst (?sch ! j)" using 1 e(3) by linarith
    have "\<bar>plus64 (fst (?sch ! i)) (snd (?sch ! i)) - (fst (?sch ! i) + snd (?sch ! i))\<bar>
            \<le> ulp (fst (?sch ! i) + snd (?sch ! i)) / 2"
      unfolding plus64_def using e by (intro double_round_error) simp
    then have 3: "fst (?sch ! i) + snd (?sch ! i) - ulp (fst (?sch ! i) + snd (?sch ! i)) / 2
             \<le> fst (?sch ! j)"
      using 1 by linarith
    show "plus64 (fst (?sch ! i)) (snd (?sch ! i)) \<le> fst (?sch ! j)
         \<and> fst (?sch ! i) \<le> fst (?sch ! j)
         \<and> fst (?sch ! i) + snd (?sch ! i) - ulp (fst (?sch ! i) + snd (?sch ! i)) / 2
             \<le> fst (?sch ! j)"
      using 1 2 3 by simp
  qed
  have dec: "audioData msg = Some d \<and> d \<noteq> [] \<and> outputContext s \<and> \<not> r_isSpeakerMuted sc
        \<and> decodeAudioData env d = Some b \<longrightarrow> handleAudio env sc msg s = enqueue env b s"
    by (simp add: handleAudio_def)
  show ?thesis
    by (intro conjI enqueue_fields ord dec)
qed

theorem playback_order_rounded_witness:
  "timeValue (nextStartTime initialApp) \<and> timeValue (currentTime tenthsEnv 0)
   \<and> list_all keepsPlayback
        [Click StartButton, UserMediaResolved, Open,
         Message (emptyMessage\<lparr>audioData := Some ''a''\<rparr>),
         Message (emptyMessage\<lparr>audioData := Some ''aaaaaaa''\<rparr>),
         Message (emptyMessage\<lparr>audioData := Some ''a''\<rparr>)]
   \<and> scheduled (drop (length (trace initialApp)) (trace (run tenthsEnv
        [Click StartButton, UserMediaResolved, Open,
         Message (emptyMessage\<lparr>audioData := Some ''a''\<rparr>),
         Message (emptyMessage\<lparr>audioData := Some ''aaaaaaa''\<rparr>),
         Message (emptyMessage\<lparr>audioData := Some ''a''\<rparr>)] initialApp)))
     = [(0, 3602879701896397 / 2 ^ 55),
        (3602879701896397 / 2 ^ 55, 3152519739159347 / 2 ^ 52),
        (7205759403792793 / 2 ^ 53, 3602879701896397 / 2 ^ 55)]
   \<and> plus64 (3602879701896397 / 2 ^ 55) (3152519739159347 / 2 ^ 52)
       \<le> 7205759403792793 / 2 ^ 53"
proof -
  let ?es = "[Click StartButton, UserMediaResolved, Open,
              Message (emptyMessage\<lparr>audioData := Some ''a''\<rparr>),
              Message (emptyMessage\<lparr>audioData := Some ''aaaaaaa''\<rparr>),
              Message (emptyMessage\<lparr>audioData := Some ''a''\<rparr>)]"
  let ?sch = "scheduled (drop (length (trace initialApp)) (trace (run tenthsEnv ?es initialApp)))"
  have ev: "?sch = [(0, 3602879701896397 / 2 ^ 55),
        (3602879701896397 / 2 ^ 55, 3152519739159347 / 2 ^ 52),
        (7205759403792793 / 2 ^ 53, 3602879701896397 / 2 ^ 55)]"
    by (simp add: playback_defs double_defs)
  have tv: "timeValue (nextStartTime initialApp)" "timeValue (currentTime tenthsEnv 0)"
    "\<forall>k. timeValue (currentTime tenthsEnv k)"
    by (simp_all add: timeValue_def initialApp_def tenthsEnv_def double_round_def)
  have kp: "list_all keepsPlayback ?es" by (simp add: emptyMessage_def)
  have hyp: "timeValue (nextStartTime initialApp) \<and> (\<forall>k. timeValue (currentTime tenthsEnv k))
        \<and> (\<forall>e \<in> set ?es. keepsPlayback e)"
    using tv kp by simp
  have "\<forall>i j. i < j \<and> j < length ?sch \<longrightarrow>
           plus64 (fst (?sch ! i)) (snd (?sch ! i)) \<le> fst (?sch ! j)
         \<and> fst (?sch ! i) \<le> fst (?sch ! j)
         \<and> fst (?sch ! i) + snd (?sch ! i) - ulp (fst (?sch ! i) + snd (?sch ! i)) / 2
             \<le> fst (?sch ! j)"
    by (rule mp [OF playback_order_rounded
          [where env=tenthsEnv and s=initialApp and es="?es",
           THEN conjunct2, THEN conjunct2, THEN conjunct2, THEN conjunct2] hyp])
  then have "(1::nat) < 2 \<and> 2 < length ?sch \<longrightarrow>
           plus64 (fst (?sch ! 1)) (snd (?sch ! 1)) \<le> fst (?sch ! 2)"
    by blast
  then have "plus64 (3602879701896397 / 2 ^ 55) (3152519739159347 / 2 ^ 52)
       \<le> (7205759403792793 / 2 ^ 53 :: real)"
    unfolding ev by simp
  then show ?thesis using ev tv(1,2) kp by blast
qed


lemma stopAudio_frame:
  "outputContext (stopAudio env s) = outputContext s"
  "session (stopAudio env s) = session s"
  "pendingConnect (stopAudio env s) = pendingConnect s"
  "connectionState (stopAudio env s) = connectionState s"
  by (simp_all add: stopAudio_def Let_def)

lemma updateLastMessage_frame2:
  "session (updateLastMessage env r t fin s) = session s"
  "pendingConnect (updateLastMessage env r t fin s) = pendingConnect s"
  by (simp_all add: updateLastMessage_def Let_def)

lemma setCurrentTrans_frame2:
  "session (setCurrentTrans r t s) = session s"
  "pendingConnect (setCurrentTrans r t s) = pendingConnect s"
  by (cases r; simp)+

lemma appendDelta_frame2:
  "session (appendDelta env r t s) = session s"
  "pendingConnect (appendDelta env r t s) = pendingConnect s"
  by (simp_all add: appendDelta_def Let_def updateLastMessage_frame2 setCurrentTrans_frame2)

lemma sealRole_frame2:
  "session (sealRole env r s) = session s"
  "pendingConnect (sealRole env r s) = pendingConnect s"
  by (simp_all add: sealRole_def updateLastMessage_frame2 setCurrentTrans_frame2)

lemma sealOnInterrupt_frame:
  "session (sealOnInterrupt env s) = session s"
  "pendingConnect (sealOnInterrupt env s) = pendingConnect s"
  "connectionState (sealOnInterrupt env s) = connectionState s"
  "outputContext (sealOnInterrupt env s) = outputContext s"
  "audioSources (sealOnInterrupt env s) = audioSources s"
  "nextStartTime (sealOnInterrupt env s) = nextStartTime s"
  by (simp_all add: sealOnInterrupt_def updateLastMessage_def Let_def)

lemma onmessage_frame:
  "session (onmessage env sc msg s) = session s"
  "pendingConnect (onmessage env sc msg s) = pendingConnect s"
  "connectionState (onmessage env sc msg s) = connectionState s"
  "outputContext (onmessage env sc msg s) = outputContext s"
proof -
  let ?T = "handleTurnComplete env msg
              (handleOutputTranscription env msg (handleInputTranscription env msg s))"
  have t: "session ?T = session s" "pendingConnect ?T = pendingConnect s"
    "connectionState ?T = connectionState s" "outputContext ?T = outputContext s"
    by (simp_all add: handleTurnComplete_def handleOutputTranscription_def
          handleInputTranscription_def sealTurn_sealRole sealRole_frame sealRole_frame2
          appendDelta_frame appendDelta_frame2 split: option.splits)
  have a: "session (handleAudio env sc msg u) = session u"
    "pendingConnect (handleAudio env sc msg u) = pendingConnect u"
    "connectionState (handleAudio env sc msg u) = connectionState u"
    "outputContext (handleAudio env sc msg u) = outputContext u" for u
    by (simp_all add: handleAudio_def enqueue_def Let_def split: option.splits)
  have i: "session (handleInterrupted env msg u) = session u"
    "pendingConnect (handleInterrupted env msg u) = pendingConnect u"
    "connectionState (handleInterrupted env msg u) = connectionState u"
    "outputContext (handleInterrupted env msg u) = outputContext u" for u
    by (simp_all add: handleInterrupted_def sealOnInterrupt_frame stopAll_def)
  show "session (onmessage env sc msg s) = session s"
    "pendingConnect (onmessage env sc msg s) = pendingConnect s"
    "connectionState (onmessage env sc msg s) = connectionState s"
    "outputContext (onmessage env sc msg s) = outputContext s"
    by (simp_all add: onmessage_def i a t)
qed

lemma step_stopPathReady:
  assumes "stopPathReady s"
  shows "stopPathReady (step env e s)"
proof (cases e)
  case (Click c)
  then show ?thesis using assms
    by (cases c)
       (auto simp: stopPathReady_def connect_def setupAudioContexts_def disconnect_def
          initialApp_def swapLanguages_def Let_def)
next
  case UserMediaResolved
  then show ?thesis using assms
    by (auto simp: stopPathReady_def connectStream_def split: option.splits)
next
  case (UserMediaRejected m)
  then show ?thesis using assms
    by (auto simp: stopPathReady_def connectCatch_def stopAudio_frame)
next
  case (SessionRejected m)
  then show ?thesis using assms
    by (auto simp: stopPathReady_def connectCatch_def stopAudio_frame)
next
  case Open
  then show ?thesis using assms
    by (auto simp: stopPathReady_def onopen_def Let_def split: option.splits)
next
  case (Message msg)
  then show ?thesis using assms
    by (auto simp: stopPathReady_def onmessage_frame split: option.splits)
next
  case Close
  then show ?thesis using assms
    by (auto simp: stopPathReady_def onclose_def stopAudio_frame split: option.splits)
next
  case (Failure err)
  then show ?thesis using assms
    by (auto simp: stopPathReady_def onerror_def stopAudio_frame split: option.splits)
next
  case (AudioProcess d)
  then show ?thesis using assms
    by (auto simp: stopPathReady_def onaudioprocess_def split: option.splits)
next
  case (Ended i)
  then show ?thesis using assms by (auto simp: stopPathReady_def ended_def)
qed

lemma run_stopPathReady: "stopPathReady s \<Longrightarrow> stopPathReady (run env es s)"
  by (induction es arbitrary: s) (simp_all add: step_stopPathReady)

lemma initialApp_stopPathReady: "stopPathReady initialApp"
  by (simp add: stopPathReady_def initialApp_def)

text \<open>
  C5. With the output context in place, the stop of the interruption branch and
  \<open>stopAudio\<close> both stop every live source, whatever their number, leave the
  live-segment set empty and set the playback clock to the device's current time, not
  to zero and not to a time scheduled earlier. As the device time does not go back, a
  segment enqueued next starts at the device time read by that \<open>enqueue\<close>. The
  output context is in place in every state reached from the initial one in which a stop
  path can run.
\<close>

theorem stopAll_resets_clock:
  assumes "outputContext s"
  shows "stopPathReady (run env es initialApp)
       \<and> audioSources (stopAll env s) = []
       \<and> (\<forall>x \<in> set (audioSources s). SourceStop (sid x) \<in> set (trace (stopAll env s)))
       \<and> nextStartTime (stopAll env s) = currentTime env (timeReads s)
       \<and> audioSources (stopAudio env s) = []
       \<and> (\<forall>x \<in> set (audioSources s). SourceStop (sid x) \<in> set (trace (stopAudio env s)))
       \<and> nextStartTime (stopAudio env s) = currentTime env (timeReads s)
       \<and> (currentTime env (timeReads s) \<le> currentTime env (timeReads s + 1) \<longrightarrow>
            audioSources (enqueue env b (stopAll env s))
              = [\<lparr>sid = sourcesCreated s, buffer = b,
                  startAt = currentTime env (timeReads s + 1)\<rparr>]
          \<and> audioSources (enqueue env b (stopAudio env s))
              = [\<lparr>sid = sourcesCreated s, buffer = b,
                  startAt = currentTime env (timeReads s + 1)\<rparr>])"
proof -
  have 1: "audioSources (stopAll env s) = []"
    "nextStartTime (stopAll env s) = currentTime env (timeReads s)"
    "timeReads (stopAll env s) = timeReads s + 1"
    "sourcesCreated (stopAll env s) = sourcesCreated s"
    "trace (stopAll env s) = trace s @ map (\<lambda>x. SourceStop (sid x)) (audioSources s)"
    using assms by (simp_all add: stopAll_def)
  have 2: "audioSources (stopAudio env s) = []"
    "nextStartTime (stopAudio env s) = currentTime env (timeReads s)"
    "timeReads (stopAudio env s) = timeReads s + 1"
    "sourcesCreated (stopAudio env s) = sourcesCreated s"
    using assms by (simp_all add: stopAudio_def Let_def)
  have 3: "set (map (\<lambda>x. SourceStop (sid x)) (audioSources s)) \<subseteq> set (trace (stopAudio env s))"
    by (auto simp: stopAudio_def Let_def)
  have 4: "\<forall>x \<in> set (audioSources s). SourceStop (sid x) \<in> set (trace (stopAll env s))"
    by (simp add: 1)
  have 5: "\<forall>x \<in> set (audioSources s). SourceStop (sid x) \<in> set (trace (stopAudio env s))"
    using 3 by auto
  have 6: "audioSources (enqueue env b u)
            = audioSources u @ [\<lparr>sid = sourcesCreated u, buffer = b,
                 startAt = max (nextStartTime u) (currentTime env (timeReads u))\<rparr>]" for u
    by (simp add: enqueue_def Let_def)
  have 7: "stopPathReady (run env es initialApp)"
    using initialApp_stopPathReady by (rule run_stopPathReady)
  show ?thesis
    using 4 5 7 by (simp add: 1 2 6 max_def)
qed

theorem stopAll_resets_clock_witness:
  "outputContext playingApp
   \<and> session (run (demoEnv (Some ''k'')) [Click StartButton, UserMediaResolved] initialApp)
       = Some demoScope
   \<and> outputContext
         (run (demoEnv (Some ''k'')) [Click StartButton, UserMediaResolved] initialApp)
   \<and> nextStartTime playingApp = 9
   \<and> audioSources (stopAll (demoEnv None) playingApp) = []
   \<and> nextStartTime (stopAll (demoEnv None) playingApp) = 4
   \<and> SourceStop 1 \<in> set (trace (stopAll (demoEnv None) playingApp))
   \<and> map startAt (audioSources (enqueue (demoEnv None) \<lparr>frames = 12000, sampleRate = 24000\<rparr>
         (stopAll (demoEnv None) playingApp))) = [5]"
  using stopAll_resets_clock
          [of playingApp "demoEnv None" "[]" "\<lparr>frames = 12000, sampleRate = 24000\<rparr>"]
  by (simp add: playingApp_def session_defs demoScope_def)

section \<open>Transcript\<close>

lemma trim_Nil: "trim t = [] \<longleftrightarrow> (\<forall>c \<in> set t. isWhiteSpace c)"
proof
  assume e: "trim t = []"
  show "\<forall>c \<in> set t. isWhiteSpace c"
  proof (rule ccontr)
    assume "\<not> (\<forall>c \<in> set t. isWhiteSpace c)"
    then have ne: "dropWhile isWhiteSpace t \<noteq> []" by (simp add: dropWhile_eq_Nil_conv)
    then have "\<not> isWhiteSpace (hd (dropWhile isWhiteSpace t))" by (rule hd_dropWhile)
    moreover have "hd (dropWhile isWhiteSpace t) \<in> set (rev (dropWhile isWhiteSpace t))"
      using ne by simp
    ultimately have "dropWhile isWhiteSpace (rev (dropWhile isWhiteSpace t)) \<noteq> []"
      unfolding dropWhile_eq_Nil_conv by blast
    then show False using e by (simp add: trim_def)
  qed
next
  assume "\<forall>c \<in> set t. isWhiteSpace c"
  then show "trim t = []" by (auto simp: trim_def dest: set_dropWhileD)
qed

lemma trim_append_left: "trim a \<noteq> [] \<Longrightarrow> trim (a @ b) \<noteq> []"
  by (auto simp: trim_Nil)

lemma trim_append_right: "trim b \<noteq> [] \<Longrightarrow> trim (a @ b) \<noteq> []"
  by (auto simp: trim_Nil)

lemma updateLastMessage_messages:
  "messages (updateLastMessage env r t fin s) =
     (if lastOpen r (messages s)
      then butlast (messages s) @ [(last (messages s))\<lparr>text := t, isFinal := fin\<rparr>]
      else if 0 < length (trim t)
      then messages s @ [\<lparr>id_msg = Date_now env (dateReads s), role = r, text = t,
                          isFinal = fin, timestamp = Date_now env (dateReads s + 1)\<rparr>]
      else messages s)"
  by (simp add: updateLastMessage_def lastOpen_def isOpen_def Let_def)

lemma currentTrans_set: "currentTrans r (setCurrentTrans r t s) = t"
  by (cases r) simp_all

lemma currentTrans_updateLastMessage:
  "currentTrans r' (updateLastMessage env r t fin s) = currentTrans r' s"
  by (cases r') (simp_all add: updateLastMessage_def Let_def)

lemma appendDelta_messages:
  "messages (appendDelta env r f s) =
     (if f = [] then messages s
      else if lastOpen r (messages s)
      then butlast (messages s) @ [(last (messages s))\<lparr>text := currentTrans r s @ f, isFinal := False\<rparr>]
      else if 0 < length (trim (currentTrans r s @ f))
      then messages s @ [\<lparr>id_msg = Date_now env (dateReads s), role = r, text = currentTrans r s @ f,
                          isFinal = False, timestamp = Date_now env (dateReads s + 1)\<rparr>]
      else messages s)"
  by (cases r) (simp_all add: appendDelta_def Let_def updateLastMessage_messages)

lemma appendDelta_currentTrans:
  "currentTrans r (appendDelta env r f s) = currentTrans r s @ f"
  by (cases r) (simp_all add: appendDelta_def Let_def currentTrans_updateLastMessage [where r'=USER, simplified]
       currentTrans_updateLastMessage [where r'=MODEL, simplified])

lemma appendDelta_tracks:
  assumes "\<not> lastOpen r ms0"
    and "currentTrans r s = b"
    and "if 0 < length (trim b)
         then \<exists>e. messages s = ms0 @ [e] \<and> role e = r \<and> text e = b \<and> \<not> isFinal e
         else messages s = ms0"
  shows "currentTrans r (appendDelta env r f s) = b @ f
       \<and> (if 0 < length (trim (b @ f))
          then \<exists>e. messages (appendDelta env r f s) = ms0 @ [e] \<and> role e = r
                 \<and> text e = b @ f \<and> \<not> isFinal e
          else messages (appendDelta env r f s) = ms0)"
proof (cases "0 < length (trim b)")
  case True
  then obtain e where e: "messages s = ms0 @ [e]" "role e = r" "text e = b" "\<not> isFinal e"
    using assms(3) by auto
  then have lo: "lastOpen r (messages s)" by (simp add: lastOpen_def isOpen_def)
  have nb: "0 < length (trim (b @ f))" using True trim_append_left by simp
  show ?thesis
  proof (cases "f = []")
    case True
    then show ?thesis using e nb assms(2) by (simp add: appendDelta_messages appendDelta_currentTrans)
  next
    case False
    then have "messages (appendDelta env r f s) = ms0 @ [e\<lparr>text := b @ f, isFinal := False\<rparr>]"
      using lo e assms(2) by (simp add: appendDelta_messages)
    then show ?thesis using nb e assms(2) by (simp add: appendDelta_currentTrans)
  qed
next
  case False
  then have m: "messages s = ms0" using assms(3) by simp
  then have lo: "\<not> lastOpen r (messages s)" using assms(1) by simp
  show ?thesis
  proof (cases "f = []")
    case True
    then show ?thesis using False m assms(2) by (simp add: appendDelta_messages appendDelta_currentTrans)
  next
    case f: False
    show ?thesis using f lo m assms(2) by (simp add: appendDelta_messages appendDelta_currentTrans)
  qed
qed

lemma appendDeltas_tracks:
  assumes "\<not> lastOpen r ms0"
  shows "currentTrans r s = b \<Longrightarrow>
         (if 0 < length (trim b)
          then \<exists>e. messages s = ms0 @ [e] \<and> role e = r \<and> text e = b \<and> \<not> isFinal e
          else messages s = ms0) \<Longrightarrow>
         currentTrans r (appendDeltas env r fs s) = b @ concat fs
       \<and> (if 0 < length (trim (b @ concat fs))
          then \<exists>e. messages (appendDeltas env r fs s) = ms0 @ [e] \<and> role e = r
                 \<and> text e = b @ concat fs \<and> \<not> isFinal e
          else messages (appendDeltas env r fs s) = ms0)"
proof (induction fs arbitrary: s b)
  case Nil
  then show ?case by simp
next
  case (Cons f fs)
  have step: "currentTrans r (appendDelta env r f s) = b @ f
       \<and> (if 0 < length (trim (b @ f))
          then \<exists>e. messages (appendDelta env r f s) = ms0 @ [e] \<and> role e = r
                 \<and> text e = b @ f \<and> \<not> isFinal e
          else messages (appendDelta env r f s) = ms0)"
    using appendDelta_tracks [OF assms Cons.prems(1) Cons.prems(2)] .
  show ?case
    using Cons.IH [of "appendDelta env r f s" "b @ f"] step by (simp split: if_splits)
qed

lemmas transcript_defs =
  initialApp_def demoEnv_def appendDelta_def updateLastMessage_def sealTurn_def
  sealOnInterrupt_def Let_def trim_def isWhiteSpace_def

lemma grownFrom_refl: "grownFrom ms ms"
  by (simp add: grownFrom_def)

lemma grownFrom_trans: "grownFrom a b \<Longrightarrow> grownFrom b c \<Longrightarrow> grownFrom a c"
  unfolding grownFrom_def
  by (metis (no_types, lifting) le_trans less_le_trans)

lemma grownFrom_append: "grownFrom ms (ms @ xs)"
  by (simp add: grownFrom_def nth_append)

lemma grownFrom_replace_last:
  assumes "ms \<noteq> []" and "\<not> isFinal (last ms)"
  shows "grownFrom ms (butlast ms @ [(last ms)\<lparr>text := t, isFinal := fin\<rparr>])"
proof -
  have len: "length (butlast ms @ [(last ms)\<lparr>text := t, isFinal := fin\<rparr>]) = length ms"
    using assms(1) by simp
  have "\<And>i. i < length ms \<Longrightarrow>
          id_msg ((butlast ms @ [(last ms)\<lparr>text := t, isFinal := fin\<rparr>]) ! i) = id_msg (ms ! i)
        \<and> role ((butlast ms @ [(last ms)\<lparr>text := t, isFinal := fin\<rparr>]) ! i) = role (ms ! i)
        \<and> timestamp ((butlast ms @ [(last ms)\<lparr>text := t, isFinal := fin\<rparr>]) ! i) = timestamp (ms ! i)
        \<and> (isFinal (ms ! i) \<longrightarrow> (butlast ms @ [(last ms)\<lparr>text := t, isFinal := fin\<rparr>]) ! i = ms ! i)"
  proof -
    fix i assume i: "i < length ms"
    show "id_msg ((butlast ms @ [(last ms)\<lparr>text := t, isFinal := fin\<rparr>]) ! i) = id_msg (ms ! i)
        \<and> role ((butlast ms @ [(last ms)\<lparr>text := t, isFinal := fin\<rparr>]) ! i) = role (ms ! i)
        \<and> timestamp ((butlast ms @ [(last ms)\<lparr>text := t, isFinal := fin\<rparr>]) ! i) = timestamp (ms ! i)
        \<and> (isFinal (ms ! i) \<longrightarrow> (butlast ms @ [(last ms)\<lparr>text := t, isFinal := fin\<rparr>]) ! i = ms ! i)"
    proof (cases "i < length ms - 1")
      case True
      then show ?thesis by (simp add: nth_append nth_butlast)
    next
      case False
      then have e: "i = length ms - 1" using i by simp
      then have l: "ms ! i = last ms" using assms(1) by (simp add: last_conv_nth)
      have "(butlast ms @ [(last ms)\<lparr>text := t, isFinal := fin\<rparr>]) ! i
              = (last ms)\<lparr>text := t, isFinal := fin\<rparr>"
        using e by (simp add: nth_append)
      then show ?thesis using l assms(2) by simp
    qed
  qed
  then show ?thesis unfolding grownFrom_def using len by simp
qed

lemma updateLastMessage_grown:
  "grownFrom (messages s) (messages (updateLastMessage env r t fin s))"
  by (simp add: updateLastMessage_messages grownFrom_refl grownFrom_append
        grownFrom_replace_last lastOpen_def isOpen_def)

lemma messages_setCurrentTrans: "messages (setCurrentTrans r t s) = messages s"
  by (cases r) simp_all

lemma appendDelta_grown: "grownFrom (messages s) (messages (appendDelta env r f s))"
  using updateLastMessage_grown [of "setCurrentTrans r (currentTrans r s @ f) s" env r]
  by (simp add: appendDelta_def Let_def grownFrom_refl messages_setCurrentTrans)

lemma sealRole_grown: "grownFrom (messages s) (messages (sealRole env r s))"
  by (simp add: sealRole_def grownFrom_refl messages_setCurrentTrans updateLastMessage_grown)

lemma sealTurn_grown: "grownFrom (messages s) (messages (sealTurn env s))"
  unfolding sealTurn_sealRole
  using sealRole_grown grownFrom_trans by blast

lemma sealOnInterrupt_grown: "grownFrom (messages s) (messages (sealOnInterrupt env s))"
  by (simp add: sealOnInterrupt_def grownFrom_refl updateLastMessage_grown)

lemma applyOp_grown: "grownFrom (messages s) (messages (applyOp env op s))"
  by (cases op) (simp_all add: appendDelta_grown sealTurn_grown sealOnInterrupt_grown)

lemma applyOps_grown: "grownFrom (messages s) (messages (applyOps env ops s))"
proof (induction ops arbitrary: s)
  case Nil
  then show ?case by (simp add: grownFrom_refl)
next
  case (Cons op ops)
  then show ?case using applyOp_grown grownFrom_trans by (metis applyOps.simps(2))
qed


lemma lastOpen_snoc: "lastOpen r' (ms @ [m]) \<longleftrightarrow> role m = r' \<and> \<not> isFinal m"
  by (simp add: lastOpen_def isOpen_def)

lemma updateLastMessage_lastOpen:
  "lastOpen r' (messages (updateLastMessage env r t fin s)) \<longleftrightarrow>
     (if lastOpen r (messages s) \<or> 0 < length (trim t)
      then r' = r \<and> \<not> fin
      else lastOpen r' (messages s))"
  by (auto simp: updateLastMessage_messages lastOpen_snoc) (auto simp: lastOpen_def isOpen_def)

lemma currentTrans_setCurrentTrans:
  "currentTrans r' (setCurrentTrans r t s) = (if r' = r then t else currentTrans r' s)"
  by (cases r; cases r') simp_all

lemma lastOpen_unique: "lastOpen r ms \<Longrightarrow> lastOpen r' ms \<Longrightarrow> r' = r"
  by (simp add: lastOpen_def isOpen_def)

lemma appendDelta_openHasBuffer:
  assumes "openHasBuffer s"
  shows "openHasBuffer (appendDelta env r f s)"
proof (cases "f = []")
  case True
  then show ?thesis using assms by (simp add: appendDelta_def)
next
  case False
  let ?s1 = "setCurrentTrans r (currentTrans r s @ f) s"
  let ?u = "updateLastMessage env r (currentTrans r s @ f) False ?s1"
  have u: "appendDelta env r f s = ?u"
    using False by (simp add: appendDelta_def Let_def currentTrans_setCurrentTrans)
  have "currentTrans r' ?u \<noteq> []" if lo: "lastOpen r' (messages ?u)" for r'
  proof (cases "r' = r")
    case True
    then show ?thesis using False
      by (simp add: currentTrans_updateLastMessage currentTrans_setCurrentTrans)
  next
    case ne: False
    then have "lastOpen r' (messages s)"
      using lo by (simp add: updateLastMessage_lastOpen messages_setCurrentTrans split: if_splits)
    then have "currentTrans r' s \<noteq> []" using assms by (simp add: openHasBuffer_def)
    then show ?thesis using ne
      by (simp add: currentTrans_updateLastMessage currentTrans_setCurrentTrans)
  qed
  then show ?thesis unfolding u openHasBuffer_def by blast
qed

lemma sealRole_currentTrans:
  "currentTrans r' (sealRole env r s) = (if r' = r then [] else currentTrans r' s)"
  by (simp add: sealRole_def currentTrans_setCurrentTrans currentTrans_updateLastMessage)

lemma sealRole_lastOpen:
  assumes "openHasBuffer s" and "lastOpen r' (messages (sealRole env r s))"
  shows "r' \<noteq> r \<and> lastOpen r' (messages s)"
proof (cases "currentTrans r s = []")
  case True
  then have "sealRole env r s = s" by (simp add: sealRole_def)
  then have lo: "lastOpen r' (messages s)" using assms(2) by simp
  then have "currentTrans r' s \<noteq> []" using assms(1) by (simp add: openHasBuffer_def)
  then show ?thesis using True lo by auto
next
  case False
  then have "messages (sealRole env r s) = messages (updateLastMessage env r (currentTrans r s) True s)"
    by (simp add: sealRole_def messages_setCurrentTrans)
  then have "lastOpen r' (messages (updateLastMessage env r (currentTrans r s) True s))"
    using assms(2) by simp
  then have "\<not> lastOpen r (messages s) \<and> lastOpen r' (messages s)"
    by (simp add: updateLastMessage_lastOpen split: if_splits)
  then show ?thesis by auto
qed

lemma sealRole_openHasBuffer:
  assumes "openHasBuffer s"
  shows "openHasBuffer (sealRole env r s)"
proof -
  have "currentTrans r' (sealRole env r s) \<noteq> []" if "lastOpen r' (messages (sealRole env r s))" for r'
  proof -
    have "r' \<noteq> r \<and> lastOpen r' (messages s)" using sealRole_lastOpen [OF assms that] .
    then show ?thesis using assms by (simp add: sealRole_currentTrans openHasBuffer_def)
  qed
  then show ?thesis unfolding openHasBuffer_def by blast
qed

lemma sealTurn_openHasBuffer: "openHasBuffer s \<Longrightarrow> openHasBuffer (sealTurn env s)"
  by (simp add: sealTurn_sealRole sealRole_openHasBuffer)

lemma suffix_not_blank: "0 < length (trim (b @ '' [Interrupted]''))"
proof -
  have "\<not> isWhiteSpace CHR ''I''" by (simp add: isWhiteSpace_def)
  then have "\<exists>c \<in> set (b @ '' [Interrupted]''). \<not> isWhiteSpace c" by auto
  then show ?thesis using trim_Nil by auto
qed

lemma sealOnInterrupt_openHasBuffer:
  assumes "openHasBuffer s"
  shows "openHasBuffer (sealOnInterrupt env s)"
proof (cases "currentOutputTrans s = []")
  case True
  then show ?thesis using assms by (simp add: sealOnInterrupt_def)
next
  case False
  let ?u = "updateLastMessage env MODEL (currentOutputTrans s @ '' [Interrupted]'') True s"
  have "\<not> lastOpen r' (messages ?u)" for r'
    using suffix_not_blank by (simp add: updateLastMessage_lastOpen)
  then have "\<not> lastOpen r' (messages (sealOnInterrupt env s))" for r'
    using False by (simp add: sealOnInterrupt_def)
  then show ?thesis by (simp add: openHasBuffer_def)
qed

lemma applyOp_openHasBuffer: "openHasBuffer s \<Longrightarrow> openHasBuffer (applyOp env op s)"
  by (cases op)
    (simp_all add: appendDelta_openHasBuffer sealTurn_openHasBuffer sealOnInterrupt_openHasBuffer)

lemma applyOps_openHasBuffer: "openHasBuffer s \<Longrightarrow> openHasBuffer (applyOps env ops s)"
  by (induction ops arbitrary: s) (simp_all add: applyOp_openHasBuffer)

lemma initialApp_openHasBuffer: "openHasBuffer initialApp"
  by (simp add: openHasBuffer_def initialApp_def lastOpen_def)

lemma sealTurn_fresh:
  assumes "openHasBuffer s"
  shows "currentTrans r (sealTurn env s) = [] \<and> \<not> lastOpen r (messages (sealTurn env s))"
proof -
  have b: "currentTrans r (sealTurn env s) = []"
    by (cases r) (simp_all add: sealTurn_sealRole sealRole_currentTrans)
  have "openHasBuffer (sealTurn env s)" using assms by (rule sealTurn_openHasBuffer)
  then show ?thesis using b by (auto simp: openHasBuffer_def)
qed

lemma appendDelta_fresh:
  assumes "currentTrans r u = []" and "\<not> lastOpen r (messages u)"
  shows "(0 < length (trim f) \<longrightarrow>
            (\<exists>e. messages (appendDelta env r f u) = messages u @ [e]
                \<and> role e = r \<and> text e = f \<and> \<not> isFinal e))
       \<and> (\<not> 0 < length (trim f) \<longrightarrow> messages (appendDelta env r f u) = messages u)"
  using assms by (auto simp: appendDelta_messages trim_def)

lemma latestEntry_snoc:
  "latestEntry r (ms @ [m]) = (if role m = r then Some m else latestEntry r ms)"
  by (simp add: latestEntry_def)

lemma latestEntry_lastOpen: "lastOpen r ms \<Longrightarrow> latestEntry r ms = Some (last ms)"
proof -
  assume lo: "lastOpen r ms"
  then have ms: "ms = butlast ms @ [last ms]" and r: "role (last ms) = r"
    by (simp_all add: lastOpen_def isOpen_def)
  show ?thesis using latestEntry_snoc [of r "butlast ms" "last ms"] ms r by simp
qed

lemma latestEntry_replace_other:
  assumes "lastOpen r' ms" and "r' \<noteq> r"
  shows "latestEntry r (butlast ms @ [(last ms)\<lparr>text := t, isFinal := fin\<rparr>]) = latestEntry r ms"
proof -
  have ms: "ms = butlast ms @ [last ms]" and r: "role (last ms) = r'"
    using assms(1) by (simp_all add: lastOpen_def isOpen_def)
  have "latestEntry r ms = latestEntry r (butlast ms)"
    using latestEntry_snoc [of r "butlast ms" "last ms"] ms r assms(2) by simp
  then show ?thesis using r assms(2) by (simp add: latestEntry_snoc)
qed

lemma appendDelta_growing_same:
  assumes "growing r s"
  shows "growing r (appendDelta env r f s)"
proof (cases "f = []")
  case True
  then show ?thesis using assms by (simp add: appendDelta_def)
next
  case False
  let ?b = "currentTrans r s @ f"
  have b: "currentTrans r (appendDelta env r f s) = ?b" by (rule appendDelta_currentTrans)
  show ?thesis
  proof (cases "lastOpen r (messages s)")
    case True
    then have nb: "0 < length (trim (currentTrans r s))" using assms by (auto simp: growing_def)
    then have nb': "0 < length (trim ?b)" using trim_append_left by simp
    have "messages (appendDelta env r f s)
            = butlast (messages s) @ [(last (messages s))\<lparr>text := ?b, isFinal := False\<rparr>]"
      using True False by (simp add: appendDelta_messages)
    moreover have "role (last (messages s)) = r" using True by (simp add: lastOpen_def isOpen_def)
    ultimately show ?thesis using nb' b by (simp add: growing_def latestEntry_snoc)
  next
    case lo: False
    show ?thesis
    proof (cases "0 < length (trim ?b)")
      case True
      then show ?thesis using lo False b
        by (simp add: growing_def appendDelta_messages latestEntry_snoc)
    next
      case nb: False
      then show ?thesis using lo False b by (simp add: growing_def appendDelta_messages)
    qed
  qed
qed

lemma lastOpen_replace:
  "ms \<noteq> [] \<Longrightarrow>
   lastOpen r (butlast ms @ [(last ms)\<lparr>text := t, isFinal := fin\<rparr>])
     \<longleftrightarrow> role (last ms) = r \<and> \<not> fin"
  by (simp add: lastOpen_def isOpen_def)

lemma appendDelta_growing_other:
  assumes "growing r s" and "r' \<noteq> r"
  shows "growing r (appendDelta env r' f s)"
proof (cases "f = []")
  case True
  then show ?thesis using assms by (simp add: appendDelta_def)
next
  case False
  have b: "currentTrans r (appendDelta env r' f s) = currentTrans r s"
    using assms(2)
    by (simp add: appendDelta_def Let_def currentTrans_updateLastMessage
          currentTrans_setCurrentTrans)
  show ?thesis
  proof (cases "lastOpen r' (messages s)")
    case True
    then have ne: "messages s \<noteq> []" and rl: "role (last (messages s)) = r'"
      by (simp_all add: lastOpen_def isOpen_def)
    have nlo: "\<not> lastOpen r (messages s)" using True assms(2) lastOpen_unique by blast
    have m: "messages (appendDelta env r' f s)
            = butlast (messages s)
              @ [(last (messages s))\<lparr>text := currentTrans r' s @ f, isFinal := False\<rparr>]"
      using True False by (simp add: appendDelta_messages)
    have l: "latestEntry r (messages (appendDelta env r' f s)) = latestEntry r (messages s)"
      unfolding m using True assms(2) by (rule latestEntry_replace_other)
    have "\<not> lastOpen r (messages (appendDelta env r' f s))"
      unfolding m using ne rl assms(2) by (simp add: lastOpen_replace)
    then show ?thesis using assms(1) b l by (simp add: growing_def)
  next
    case lo: False
    show ?thesis
    proof (cases "0 < length (trim (currentTrans r' s @ f))")
      case True
      then have m: "messages (appendDelta env r' f s)
            = messages s @ [\<lparr>id_msg = Date_now env (dateReads s), role = r',
                  text = currentTrans r' s @ f, isFinal = False,
                  timestamp = Date_now env (dateReads s + 1)\<rparr>]"
        using lo False by (simp add: appendDelta_messages)
      show ?thesis using assms b
        by (simp add: growing_def m latestEntry_snoc lastOpen_snoc)
    next
      case False
      then have "messages (appendDelta env r' f s) = messages s"
        using lo by (simp add: appendDelta_messages)
      then show ?thesis using assms(1) b by (simp add: growing_def)
    qed
  qed
qed

lemma fragments_growing:
  "list_all isFragment ops \<Longrightarrow> growing r s \<Longrightarrow>
   growing r (applyOps env ops s)
   \<and> currentTrans r (applyOps env ops s) = currentTrans r s @ concat (fragmentsOf r ops)"
proof (induction ops arbitrary: s)
  case Nil
  then show ?case by simp
next
  case (Cons op ops)
  then obtain r' f where op: "op = AppendDelta r' f" by (cases op) auto
  show ?case
  proof (cases "r' = r")
    case True
    have g: "growing r (appendDelta env r f s)" using Cons.prems(2) by (rule appendDelta_growing_same)
    have "currentTrans r (appendDelta env r f s) = currentTrans r s @ f"
      by (rule appendDelta_currentTrans)
    then show ?thesis using Cons.IH [OF _ g] Cons.prems(1) op True by simp
  next
    case False
    have g: "growing r (appendDelta env r' f s)"
      using Cons.prems(2) False by (rule appendDelta_growing_other)
    have "currentTrans r (appendDelta env r' f s) = currentTrans r s"
      using False
      by (simp add: appendDelta_def Let_def currentTrans_updateLastMessage
            currentTrans_setCurrentTrans)
    then show ?thesis using Cons.IH [OF _ g] Cons.prems(1) op False by simp
  qed
qed


text \<open>
  C8. Starting where a role has no pending text (its buffer is empty and the last entry
  of the log is not an open entry of that role, as at the start and after a seal), a
  sequence of \<open>appendDelta\<close> calls on that role with fragments \<open>f1, ..., fn\<close> leaves
  the role's buffer equal to \<open>f1 + ... + fn\<close>, and the open entry of the role, which is
  then the last entry of the log, has that concatenation as its text. The entry exists
  as soon as the concatenation is not blank; while it is blank the log is unchanged.
  When fragments of the other role come in between, the buffer of the role is still the
  concatenation of its own fragments, and the latest entry of the role is open and has
  that text.
\<close>

theorem appendDeltas_concat:
  assumes "currentTrans r s = []" and "\<not> lastOpen r (messages s)"
  shows "currentTrans r (appendDeltas env r fs s) = concat fs
       \<and> (if 0 < length (trim (concat fs))
          then \<exists>e. messages (appendDeltas env r fs s) = messages s @ [e] \<and> role e = r
                 \<and> text e = concat fs \<and> \<not> isFinal e
          else messages (appendDeltas env r fs s) = messages s)
       \<and> (list_all isFragment ops \<longrightarrow>
            currentTrans r (applyOps env ops s) = concat (fragmentsOf r ops)
            \<and> (0 < length (trim (concat (fragmentsOf r ops))) \<longrightarrow>
                 (\<exists>e. latestEntry r (messages (applyOps env ops s)) = Some e
                     \<and> \<not> isFinal e \<and> text e = concat (fragmentsOf r ops))))"
proof -
  have pre: "if 0 < length (trim [])
             then \<exists>e. messages s = messages s @ [e] \<and> role e = r \<and> text e = [] \<and> \<not> isFinal e
             else messages s = messages s"
    by (simp add: trim_def)
  have g: "growing r s" using assms by (simp add: growing_def trim_def)
  have il: "currentTrans r (applyOps env ops s) = concat (fragmentsOf r ops)
            \<and> (0 < length (trim (concat (fragmentsOf r ops))) \<longrightarrow>
                 (\<exists>e. latestEntry r (messages (applyOps env ops s)) = Some e
                     \<and> \<not> isFinal e \<and> text e = concat (fragmentsOf r ops)))"
    if fr: "list_all isFragment ops"
  proof -
    have "growing r (applyOps env ops s)
        \<and> currentTrans r (applyOps env ops s) = currentTrans r s @ concat (fragmentsOf r ops)"
      using fr g by (rule fragments_growing)
    then show ?thesis using assms(1) by (auto simp: growing_def)
  qed
  have sq: "currentTrans r (appendDeltas env r fs s) = concat fs
       \<and> (if 0 < length (trim (concat fs))
          then \<exists>e. messages (appendDeltas env r fs s) = messages s @ [e] \<and> role e = r
                 \<and> text e = concat fs \<and> \<not> isFinal e
          else messages (appendDeltas env r fs s) = messages s)"
    using appendDeltas_tracks [OF assms(2) assms(1) pre, of env fs] by (simp split: if_splits)
  show ?thesis using sq il by blast
qed

theorem appendDeltas_concat_witness:
  "currentTrans MODEL initialApp = [] \<and> \<not> lastOpen MODEL (messages initialApp)
   \<and> map (\<lambda>m. (role m, text m, isFinal m))
        (messages (appendDeltas (demoEnv None) MODEL [''Hi'', '' there''] initialApp))
      = [(MODEL, ''Hi there'', False)]
   \<and> list_all isFragment
        [AppendDelta MODEL ''Hi'', AppendDelta USER ''ok'', AppendDelta MODEL '' there'']
   \<and> map_option (\<lambda>e. (text e, isFinal e))
        (latestEntry MODEL (messages (applyOps (demoEnv None)
           [AppendDelta MODEL ''Hi'', AppendDelta USER ''ok'', AppendDelta MODEL '' there'']
           initialApp)))
      = Some (''Hi there'', False)"
  using appendDeltas_concat
          [of MODEL initialApp "demoEnv None" "[''Hi'', '' there'']"
              "[AppendDelta MODEL ''Hi'', AppendDelta USER ''ok'', AppendDelta MODEL '' there'']"]
  by (simp add: initialApp_def lastOpen_def demoEnv_def appendDelta_def updateLastMessage_def
        Let_def trim_def isWhiteSpace_def latestEntry_def)


text \<open>
  C7, as the specification words it, fails in its last part: after \<open>sealTurn\<close> a
  fragment that is blank (here a single space) creates no entry; the log stays as it
  is.
\<close>

theorem blank_fragment_after_seal_counterexample:
  "messages (sealTurn (demoEnv None)
      (applyOps (demoEnv None) [AppendDelta USER ''a''] initialApp))
     = [\<lparr>id_msg = 1000, role = USER, text = ''a'', isFinal = True, timestamp = 1001\<rparr>]
   \<and> messages (appendDelta (demoEnv None) USER '' ''
        (sealTurn (demoEnv None)
           (applyOps (demoEnv None) [AppendDelta USER ''a''] initialApp)))
     = [\<lparr>id_msg = 1000, role = USER, text = ''a'', isFinal = True, timestamp = 1001\<rparr>]"
  by (simp add: transcript_defs)

text \<open>
  C7, amended. No sequence of transcript operations changes the text, the role or the
  finality of a sealed entry; the log never reorders or deletes entries, and it holds
  them in creation order, new entries coming last. After \<open>sealTurn\<close>, in any state
  reached from the initial one, an \<open>appendDelta\<close> on either role with a fragment that
  is not blank creates a new open entry with that fragment as its text, and one with a
  blank fragment leaves the log unchanged; in neither case is a sealed entry modified.
\<close>

theorem sealed_entries_kept:
  "grownFrom (messages s) (messages (applyOps env ops s))
   \<and> (0 < length (trim f) \<longrightarrow>
        (\<exists>e. messages (appendDelta env r f (sealTurn env (applyOps env before initialApp)))
               = messages (sealTurn env (applyOps env before initialApp)) @ [e]
            \<and> role e = r \<and> text e = f \<and> \<not> isFinal e))
   \<and> (\<not> 0 < length (trim f) \<longrightarrow>
        messages (appendDelta env r f (sealTurn env (applyOps env before initialApp)))
          = messages (sealTurn env (applyOps env before initialApp)))"
proof -
  have "openHasBuffer (applyOps env before initialApp)"
    using initialApp_openHasBuffer by (rule applyOps_openHasBuffer)
  then have "currentTrans r (sealTurn env (applyOps env before initialApp)) = []
           \<and> \<not> lastOpen r (messages (sealTurn env (applyOps env before initialApp)))"
    by (rule sealTurn_fresh)
  then show ?thesis
    using appendDelta_fresh [of r "sealTurn env (applyOps env before initialApp)" f env]
      applyOps_grown [of s env ops]
    by blast
qed


theorem sealed_entries_kept_witness:
  "0 < length (trim ''b'')
   \<and> map (\<lambda>m. (role m, text m, isFinal m))
        (messages (appendDelta (demoEnv None) USER ''b''
           (sealTurn (demoEnv None)
              (applyOps (demoEnv None) [AppendDelta USER ''a''] initialApp))))
      = [(USER, ''a'', True), (USER, ''b'', False)]
   \<and> isFinal (messages (sealTurn (demoEnv None)
                  (appendDelta (demoEnv None) USER ''a'' initialApp)) ! 0)
   \<and> messages (applyOps (demoEnv None) [AppendDelta USER ''b'', SealTurn]
         (sealTurn (demoEnv None) (appendDelta (demoEnv None) USER ''a'' initialApp))) ! 0
       = messages (sealTurn (demoEnv None)
            (appendDelta (demoEnv None) USER ''a'' initialApp)) ! 0"
  using sealed_entries_kept
          [where s="sealTurn (demoEnv None) (appendDelta (demoEnv None) USER ''a'' initialApp)"
             and env="demoEnv None" and ops="[AppendDelta USER ''b'', SealTurn]"
             and f="''b''" and r=USER and before="[AppendDelta USER ''a'']"]
  by (simp add: transcript_defs grownFrom_def)

text \<open>
  C1 does not hold of the code. \<open>updateLastMessage\<close> looks at the last entry only, so
  an open entry that is no longer last is never found again. First run: the two roles
  alternate, and the second USER fragment opens a second USER entry beside the first.
  Second run: after a plain turn (the user speaks, the model answers, the turn
  completes) the USER entry of that turn is still open, and the first fragment of the
  next turn opens another.
\<close>

theorem two_open_entries_per_role:
  "map (\<lambda>m. (role m, text m, isFinal m))
     (messages (onmessages (demoEnv None) demoScope
        [emptyMessage\<lparr>inputTranscription := Some (Some ''a'')\<rparr>,
         emptyMessage\<lparr>outputTranscription := Some (Some ''b'')\<rparr>,
         emptyMessage\<lparr>inputTranscription := Some (Some ''c'')\<rparr>] initialApp))
     = [(USER, ''a'', False), (MODEL, ''b'', False), (USER, ''ac'', False)]
   \<and> openCount USER
        (messages (onmessages (demoEnv None) demoScope
           [emptyMessage\<lparr>inputTranscription := Some (Some ''a'')\<rparr>,
            emptyMessage\<lparr>outputTranscription := Some (Some ''b'')\<rparr>,
            emptyMessage\<lparr>inputTranscription := Some (Some ''c'')\<rparr>] initialApp)) = 2
   \<and> map (\<lambda>m. (role m, text m, isFinal m))
        (messages (onmessages (demoEnv None) demoScope
           [emptyMessage\<lparr>inputTranscription := Some (Some ''hello'')\<rparr>,
            emptyMessage\<lparr>outputTranscription := Some (Some ''xin'')\<rparr>,
            emptyMessage\<lparr>turnComplete := Some True\<rparr>,
            emptyMessage\<lparr>inputTranscription := Some (Some ''a'')\<rparr>] initialApp))
     = [(USER, ''hello'', False), (MODEL, ''xin'', False), (USER, ''hello'', True),
        (MODEL, ''xin'', True), (USER, ''a'', False)]
   \<and> openCount USER
        (messages (onmessages (demoEnv None) demoScope
           [emptyMessage\<lparr>inputTranscription := Some (Some ''hello'')\<rparr>,
            emptyMessage\<lparr>outputTranscription := Some (Some ''xin'')\<rparr>,
            emptyMessage\<lparr>turnComplete := Some True\<rparr>,
            emptyMessage\<lparr>inputTranscription := Some (Some ''a'')\<rparr>] initialApp)) = 2"
  by (simp add: transcript_defs emptyMessage_def onmessage_def handleInputTranscription_def
        handleOutputTranscription_def handleTurnComplete_def handleAudio_def
        handleInterrupted_def openCount_def isOpen_def)

lemma openCount_snoc:
  "openCount r (ms @ [m]) = openCount r ms + (if isOpen r m then 1 else 0)"
  by (simp add: openCount_def)

lemma openCount_lastOpen:
  assumes "lastOpen r ms"
  shows "openCount r' ms = openCount r' (butlast ms) + (if r' = r then 1 else 0)"
proof -
  have ms: "ms = butlast ms @ [last ms]" using assms by (simp add: lastOpen_def)
  have "isOpen r' (last ms) \<longleftrightarrow> r' = r" using assms by (auto simp: lastOpen_def isOpen_def)
  then show ?thesis using openCount_snoc [of r' "butlast ms" "last ms"] ms by simp
qed

lemma updateLastMessage_openCount:
  "openCount r' (messages (updateLastMessage env r t fin s))
     \<le> openCount r' (messages s)
        + (if r' = r \<and> \<not> fin \<and> \<not> lastOpen r (messages s) then 1 else 0)"
proof (cases "lastOpen r (messages s)")
  case True
  have "isOpen r' ((last (messages s))\<lparr>text := t, isFinal := fin\<rparr>) \<longrightarrow> r' = r"
    using True by (auto simp: lastOpen_def isOpen_def)
  then show ?thesis
    using True openCount_lastOpen [OF True, of r']
    by (simp add: updateLastMessage_messages openCount_snoc)
next
  case False
  then show ?thesis
    by (simp add: updateLastMessage_messages openCount_snoc isOpen_def)
qed

lemma sealRole_openCount: "openCount r' (messages (sealRole env r s)) \<le> openCount r' (messages s)"
  using updateLastMessage_openCount [of r' env r "currentTrans r s" True s]
  by (simp add: sealRole_def messages_setCurrentTrans)

lemma sealTurn_openCount: "openCount r' (messages (sealTurn env s)) \<le> openCount r' (messages s)"
  unfolding sealTurn_sealRole
  using sealRole_openCount le_trans by blast

lemma sealOnInterrupt_openCount:
  "openCount r' (messages (sealOnInterrupt env s)) \<le> openCount r' (messages s)"
  using updateLastMessage_openCount [of r' env MODEL "currentOutputTrans s @ '' [Interrupted]''" True s]
  by (simp add: sealOnInterrupt_def)

lemma appendDelta_openCount:
  assumes "fragmentAtEnd (AppendDelta r f) s" and "openCount r' (messages s) \<le> 1"
  shows "openCount r' (messages (appendDelta env r f s)) \<le> 1"
proof (cases "f = []")
  case True
  then show ?thesis using assms(2) by (simp add: appendDelta_def)
next
  case False
  let ?s1 = "setCurrentTrans r (currentTrans r s @ f) s"
  have u: "appendDelta env r f s = updateLastMessage env r (currentTrans r s @ f) False ?s1"
    using False by (simp add: appendDelta_def Let_def currentTrans_setCurrentTrans)
  have le: "openCount r' (messages (appendDelta env r f s))
          \<le> openCount r' (messages s) + (if r' = r \<and> \<not> lastOpen r (messages s) then 1 else 0)"
    unfolding u
    using updateLastMessage_openCount [of r' env r "currentTrans r s @ f" False ?s1]
    by (simp add: messages_setCurrentTrans)
  show ?thesis
  proof (cases "r' = r \<and> \<not> lastOpen r (messages s)")
    case True
    then have "openCount r' (messages s) = 0" using assms(1) by simp
    then show ?thesis using le True by simp
  next
    case False
    then show ?thesis using le assms(2) by auto
  qed
qed

lemma applyOp_openCount:
  assumes "fragmentAtEnd op s" and "openCount r' (messages s) \<le> 1"
  shows "openCount r' (messages (applyOp env op s)) \<le> 1"
proof (cases op)
  case (AppendDelta r f)
  then show ?thesis using assms appendDelta_openCount by simp
next
  case SealTurn
  then show ?thesis using assms(2) sealTurn_openCount [of r' env s] by simp
next
  case SealOnInterrupt
  then show ?thesis using assms(2) sealOnInterrupt_openCount [of r' env s] by simp
qed

lemma applyOps_openCount:
  "fragmentsAtEnd env ops s \<Longrightarrow> openCount r' (messages s) \<le> 1 \<Longrightarrow>
   openCount r' (messages (applyOps env ops s)) \<le> 1"
proof (induction ops arbitrary: s)
  case Nil
  then show ?case by simp
next
  case (Cons op ops)
  have "openCount r' (messages (applyOp env op s)) \<le> 1"
    using Cons.prems applyOp_openCount by simp
  then show ?case using Cons.IH [of "applyOp env op s"] Cons.prems by simp
qed

lemma fragmentsAtEnd_take:
  "fragmentsAtEnd env ops s \<Longrightarrow> fragmentsAtEnd env (take n ops) s"
proof (induction ops arbitrary: n s)
  case Nil
  then show ?case by simp
next
  case (Cons op ops)
  then show ?case by (cases n) simp_all
qed

lemma openCount_zero_not_lastOpen: "openCount r ms = 0 \<Longrightarrow> \<not> lastOpen r ms"
proof
  assume z: "openCount r ms = 0" and lo: "lastOpen r ms"
  then have "last ms \<in> set ms" "isOpen r (last ms)" by (simp_all add: lastOpen_def)
  then have "filter (isOpen r) ms \<noteq> []" by (auto simp: filter_empty_conv)
  then show False using z by (simp add: openCount_def)
qed

text \<open>
  What the code keeps: as long as a fragment for a role that has an open entry arrives
  only while that entry is the last one of the log, a role that has at most one open entry
  keeps at most one; and a fragment that is not blank, for a role with no open entry,
  creates exactly one new open entry for that role, at the end of the log.
\<close>

lemma one_open_entry_per_role:
  "(fragmentsAtEnd env ops s \<and> openCount r (messages s) \<le> 1 \<longrightarrow>
      (\<forall>n. openCount r (messages (applyOps env (take n ops) s)) \<le> 1))
   \<and> (openCount r (messages s) = 0 \<and> 0 < length (trim f) \<longrightarrow>
        (\<exists>e. messages (appendDelta env r f s) = messages s @ [e]
            \<and> role e = r \<and> text e = currentTrans r s @ f \<and> \<not> isFinal e)
        \<and> openCount r (messages (appendDelta env r f s)) = 1)"
proof -
  have 2: "(\<exists>e. messages (appendDelta env r f s) = messages s @ [e]
            \<and> role e = r \<and> text e = currentTrans r s @ f \<and> \<not> isFinal e)
        \<and> openCount r (messages (appendDelta env r f s)) = 1"
    if z: "openCount r (messages s) = 0" and nb: "0 < length (trim f)"
  proof -
    have lo: "\<not> lastOpen r (messages s)" using z by (rule openCount_zero_not_lastOpen)
    have ne: "f \<noteq> []" using nb by (auto simp: trim_def)
    have nb': "0 < length (trim (currentTrans r s @ f))" using nb trim_append_right by simp
    have m: "messages (appendDelta env r f s)
              = messages s @ [\<lparr>id_msg = Date_now env (dateReads s), role = r,
                    text = currentTrans r s @ f, isFinal = False,
                    timestamp = Date_now env (dateReads s + 1)\<rparr>]"
      using lo ne nb' by (simp add: appendDelta_messages)
    then show ?thesis using z by (simp add: openCount_snoc isOpen_def)
  qed
  have 1: "openCount r (messages (applyOps env (take n ops) s)) \<le> 1"
    if "fragmentsAtEnd env ops s" and "openCount r (messages s) \<le> 1" for n
    using that fragmentsAtEnd_take applyOps_openCount by blast
  show ?thesis using 1 2 by blast
qed

section \<open>Interruption\<close>

text \<open>
  When the open MODEL entry is the last entry of the log and holds the buffered text,
  the interruption branch stops playback, appends the marker to that entry, seals it and
  clears the buffer.
\<close>

lemma interrupt_seals_last_entry:
  assumes "lastOpen MODEL (messages s)"
    and "currentOutputTrans s = text (last (messages s))"
    and "currentOutputTrans s \<noteq> []"
    and "interrupted msg = Some True"
  shows "messages (handleInterrupted env msg s)
           = butlast (messages s)
             @ [(last (messages s))\<lparr>text := text (last (messages s)) @ '' [Interrupted]'',
                                     isFinal := True\<rparr>]
       \<and> audioSources (handleInterrupted env msg s) = []
       \<and> currentOutputTrans (handleInterrupted env msg s) = []"
proof -
  have m: "messages (stopAll env s) = messages s"
    "currentOutputTrans (stopAll env s) = currentOutputTrans s"
    "audioSources (stopAll env s) = []"
    by (simp_all add: stopAll_def)
  have "handleInterrupted env msg s = sealOnInterrupt env (stopAll env s)"
    using assms(4) by (simp add: handleInterrupted_def)
  moreover have "messages (sealOnInterrupt env (stopAll env s))
           = butlast (messages s)
             @ [(last (messages s))\<lparr>text := text (last (messages s)) @ '' [Interrupted]'',
                                     isFinal := True\<rparr>]"
    using assms(1,2,3) by (simp add: sealOnInterrupt_def updateLastMessage_messages m)
  moreover have "audioSources (sealOnInterrupt env (stopAll env s)) = []"
    by (simp add: sealOnInterrupt_frame m)
  moreover have "currentOutputTrans (sealOnInterrupt env (stopAll env s)) = []"
    using assms(3) by (simp add: sealOnInterrupt_def m)
  ultimately show ?thesis by simp
qed

text \<open>
  The seal reaches only the last entry. In a plain turn (the user speaks, the model
  answers, the turn completes) the USER entry is no longer last when the turn completes:
  both open entries stay open and each role gets a second, sealed entry.
\<close>

lemma turn_complete_duplicates:
  "map (\<lambda>m. (role m, text m, isFinal m))
     (messages (onmessages (demoEnv None) demoScope
        [emptyMessage\<lparr>inputTranscription := Some (Some ''hello'')\<rparr>,
         emptyMessage\<lparr>outputTranscription := Some (Some ''xin chao'')\<rparr>,
         emptyMessage\<lparr>turnComplete := Some True\<rparr>] initialApp))
   = [(USER, ''hello'', False), (MODEL, ''xin chao'', False),
      (USER, ''hello'', True), (MODEL, ''xin chao'', True)]"
  by (simp add: transcript_defs emptyMessage_def onmessage_def handleInputTranscription_def
        handleOutputTranscription_def handleTurnComplete_def handleAudio_def
        handleInterrupted_def)


text \<open>
  C6 does not hold of the code. MODEL has the open entry "Hola"; a USER fragment
  arrives and its entry becomes the last one; the interruption then finds no open MODEL
  entry in the last position: the entry "Hola" stays open and unchanged, and a second,
  sealed MODEL entry "Hola [Interrupted]" is added at the end.
\<close>

theorem interrupt_leaves_entry_open:
  "map (\<lambda>m. (role m, text m, isFinal m))
     (messages (onmessages (demoEnv None) demoScope
        [emptyMessage\<lparr>outputTranscription := Some (Some ''Hola'')\<rparr>,
         emptyMessage\<lparr>inputTranscription := Some (Some ''hey'')\<rparr>,
         emptyMessage\<lparr>interrupted := Some True\<rparr>] initialApp))
   = [(MODEL, ''Hola'', False), (USER, ''hey'', False), (MODEL, ''Hola [Interrupted]'', True)]"
  by (simp add: transcript_defs emptyMessage_def onmessage_def handleInputTranscription_def
        handleOutputTranscription_def handleTurnComplete_def handleAudio_def
        handleInterrupted_def stopAll_def)

end
